theory Spec2Isabelle
  imports Complex_Main
begin

section \<open>Data model (models.py)\<close>

text \<open>
  A shallow embedding of the cart, order and stock operations of the Cloud Supply bot
  (\<^verbatim>\<open>core/db/crud.py\<close> over the tables of \<^verbatim>\<open>models.py\<close>), and what they guarantee.
  Every operation takes the database and returns the new one; operations run one at a
  time.

  The model has the tables \<^verbatim>\<open>models\<close>, \<^verbatim>\<open>products\<close>, \<^verbatim>\<open>cart\<close>, \<^verbatim>\<open>orders\<close> and
  \<^verbatim>\<open>order_items\<close>; a user is the integer \<^verbatim>\<open>users.id\<close>. Conventions of the embedding:

  \<^item> \<^verbatim>\<open>Integer\<close> columns and Python ints are \<open>int\<close> (unbounded, as in Python).
  \<^item> \<^verbatim>\<open>Float\<close> columns (\<^verbatim>\<open>price\<close>, \<^verbatim>\<open>total_price\<close>, \<^verbatim>\<open>delivery_fee\<close>,
    \<^verbatim>\<open>price_at_order\<close>) are \<open>real\<close>: sums and products are taken in the order the source
    takes them, rounding of IEEE doubles is outside the model.
  \<^item> \<^verbatim>\<open>models\<close> and \<^verbatim>\<open>products\<close> are read by primary key only in the operations
    modelled, so they are maps from the \<^verbatim>\<open>id\<close> to the remaining columns;
    \<^verbatim>\<open>product.id\<close> is the key the row was fetched with.
  \<^item> \<^verbatim>\<open>cart\<close>, \<^verbatim>\<open>orders\<close> and \<^verbatim>\<open>order_items\<close> are lists of rows in storage order. SQLite
    stores a table with an integer primary key in ascending \<^verbatim>\<open>id\<close> order and a
    \<^verbatim>\<open>SELECT\<close> without \<^verbatim>\<open>ORDER BY\<close> scans it in that order; a new row gets the largest
    \<^verbatim>\<open>id\<close> of the table plus one (\<open>next_id\<close>) and goes to the end.
  \<^item> \<^verbatim>\<open>created_at\<close> of an order is an \<open>int\<close> clock reading handed to the operation that
    inserts it; \<^verbatim>\<open>updated_at\<close> and the other \<^verbatim>\<open>created_at\<close>/\<^verbatim>\<open>added_at\<close> columns are
    wall-clock bookkeeping that no operation reads, and are left out.
\<close>

record model_row =
  m_name :: string
  cost_price :: real
  m_is_available :: bool

record product_row =
  model_id :: int
  flavor_name :: string
  price :: real
  stock_quantity :: int
  is_available :: bool

record cart_row =
  c_id :: int
  c_user_id :: int
  c_product_id :: int
  c_quantity :: int

record order_row =
  o_id :: int
  o_user_id :: int
  total_price :: real
  status :: string
  delivery_method :: string
  delivery_fee :: real
  contact_info :: "string option"
  created_at :: int

record order_item_row =
  oi_id :: int
  oi_order_id :: int
  oi_product_id :: int
  oi_quantity :: int
  price_at_order :: real

record db =
  models :: "int \<rightharpoonup> model_row"
  products :: "int \<rightharpoonup> product_row"
  cart :: "cart_row list"
  orders :: "order_row list"
  order_items :: "order_item_row list"

definition next_id :: "int list \<Rightarrow> int" where
  "next_id ids = foldr max ids 0 + 1"

section \<open>Catalog operations (crud.py, MODELS and PRODUCTS)\<close>

text \<open>
  \<^verbatim>\<open>update_model\<close> and \<^verbatim>\<open>update_product\<close> take the columns to set as keyword
  arguments: a record with one optional value per column.
\<close>

record model_values =
  set_m_name :: "string option"
  set_cost_price :: "real option"
  set_m_is_available :: "bool option"

record product_values =
  set_model_id :: "int option"
  set_flavor_name :: "string option"
  set_price :: "real option"
  set_stock_quantity :: "int option"
  set_is_available :: "bool option"

definition no_values :: product_values where
  "no_values = \<lparr>set_model_id = None, set_flavor_name = None, set_price = None,
     set_stock_quantity = None, set_is_available = None\<rparr>"

definition assign_model :: "model_values \<Rightarrow> model_row \<Rightarrow> model_row" where
  "assign_model kw m =
     m\<lparr>m_name := (case set_m_name kw of None \<Rightarrow> m_name m | Some v \<Rightarrow> v),
       cost_price := (case set_cost_price kw of None \<Rightarrow> cost_price m | Some v \<Rightarrow> v),
       m_is_available := (case set_m_is_available kw of None \<Rightarrow> m_is_available m | Some v \<Rightarrow> v)\<rparr>"

definition assign_product :: "product_values \<Rightarrow> product_row \<Rightarrow> product_row" where
  "assign_product kw p =
     p\<lparr>model_id := (case set_model_id kw of None \<Rightarrow> model_id p | Some v \<Rightarrow> v),
       flavor_name := (case set_flavor_name kw of None \<Rightarrow> flavor_name p | Some v \<Rightarrow> v),
       price := (case set_price kw of None \<Rightarrow> price p | Some v \<Rightarrow> v),
       stock_quantity := (case set_stock_quantity kw of None \<Rightarrow> stock_quantity p | Some v \<Rightarrow> v),
       is_available := (case set_is_available kw of None \<Rightarrow> is_available p | Some v \<Rightarrow> v)\<rparr>"

text \<open>
  \<^verbatim>\<open>create_model\<close>, \<^verbatim>\<open>create_product\<close>: insert a row under a fresh id and return it.
  The fresh id is passed in (the tables are maps); \<^verbatim>\<open>is_available\<close> takes its column
  default \<^verbatim>\<open>True\<close>.
\<close>

definition create_model :: "db \<Rightarrow> int \<Rightarrow> string \<Rightarrow> real \<Rightarrow> db" where
  "create_model d new_id name cost =
     d\<lparr>models := (models d)(new_id \<mapsto>
        \<lparr>m_name = name, cost_price = cost, m_is_available = True\<rparr>)\<rparr>"

definition update_model :: "db \<Rightarrow> int \<Rightarrow> model_values \<Rightarrow> db" where
  "update_model d mid kw =
     (case models d mid of
        None \<Rightarrow> d
      | Some m \<Rightarrow> d\<lparr>models := (models d)(mid \<mapsto> assign_model kw m)\<rparr>)"

definition delete_model :: "db \<Rightarrow> int \<Rightarrow> db" where
  "delete_model d mid = d\<lparr>models := (models d)(mid := None)\<rparr>"

definition create_product :: "db \<Rightarrow> int \<Rightarrow> int \<Rightarrow> string \<Rightarrow> real \<Rightarrow> int \<Rightarrow> db" where
  "create_product d new_id mid flavor pr stock =
     d\<lparr>products := (products d)(new_id \<mapsto>
        \<lparr>model_id = mid, flavor_name = flavor, price = pr, stock_quantity = stock,
         is_available = True\<rparr>)\<rparr>"

definition get_product_by_id :: "db \<Rightarrow> int \<Rightarrow> product_row option" where
  "get_product_by_id d product_id = products d product_id"

text \<open>\<^verbatim>\<open>update_product\<close>: an \<^verbatim>\<open>UPDATE ... WHERE id = product_id\<close>; no row, no change.\<close>

definition update_product :: "db \<Rightarrow> int \<Rightarrow> product_values \<Rightarrow> db" where
  "update_product d product_id kw =
     (case products d product_id of
        None \<Rightarrow> d
      | Some p \<Rightarrow> d\<lparr>products := (products d)(product_id \<mapsto> assign_product kw p)\<rparr>)"

text \<open>
  \<^verbatim>\<open>update_stock\<close>:
  \<^verbatim>\<open>
    product = await get_product_by_id(session, product_id)
    if product:
        new_quantity = product.stock_quantity + quantity_change
        await update_product(session, product_id, stock_quantity=max(0, new_quantity))
  \<close>
\<close>

definition update_stock :: "db \<Rightarrow> int \<Rightarrow> int \<Rightarrow> db" where
  "update_stock d product_id quantity_change =
     (case get_product_by_id d product_id of
        None \<Rightarrow> d
      | Some product \<Rightarrow>
          (let new_quantity = stock_quantity product + quantity_change
           in update_product d product_id
                (no_values\<lparr>set_stock_quantity := Some (max 0 new_quantity)\<rparr>)))"

text \<open>
  \<^verbatim>\<open>delete_product\<close>: a \<^verbatim>\<open>DELETE FROM products WHERE id = product_id\<close> statement. The
  foreign keys of \<^verbatim>\<open>cart\<close> and \<^verbatim>\<open>order_items\<close> declare no \<^verbatim>\<open>ON DELETE\<close> action, and the
  relationship cascades of the ORM apply to \<^verbatim>\<open>session.delete(obj)\<close> only, so no other
  table changes.
\<close>

definition delete_product :: "db \<Rightarrow> int \<Rightarrow> db" where
  "delete_product d product_id = d\<lparr>products := (products d)(product_id := None)\<rparr>"

datatype catalog_op =
    Create_model int string real
  | Update_model int model_values
  | Delete_model int
  | Create_product int int string real int
  | Update_product int product_values
  | Update_stock int int
  | Delete_product int

fun catalog_step :: "db \<Rightarrow> catalog_op \<Rightarrow> db" where
  "catalog_step d (Create_model i n c) = create_model d i n c"
| "catalog_step d (Update_model i kw) = update_model d i kw"
| "catalog_step d (Delete_model i) = delete_model d i"
| "catalog_step d (Create_product i m f p s) = create_product d i m f p s"
| "catalog_step d (Update_product i kw) = update_product d i kw"
| "catalog_step d (Update_stock i q) = update_stock d i q"
| "catalog_step d (Delete_product i) = delete_product d i"

section \<open>Grouping rows and collapsing a group (shared by both merge operations)\<close>

text \<open>
  Both \<^verbatim>\<open>merge_duplicate_cart_items\<close> and \<^verbatim>\<open>merge_duplicate_order_items\<close> build a
  dictionary from a key to the list of rows with that key,
  \<^verbatim>\<open>
    product_groups = {}
    for item in items:
        if key in product_groups: product_groups[key].append(item)
        else:                     product_groups[key] = [item]
  \<close>
  and then walk \<^verbatim>\<open>product_groups.items()\<close>. A Python dictionary keeps its keys in
  insertion order: the dictionary is an association list, a new key goes to the end.
\<close>

fun add_to_group :: "'k \<Rightarrow> 'r \<Rightarrow> ('k \<times> 'r list) list \<Rightarrow> ('k \<times> 'r list) list" where
  "add_to_group k r [] = [(k, [r])]"
| "add_to_group k r ((k', rs) # groups) =
     (if k' = k then (k', rs @ [r]) # groups else (k', rs) # add_to_group k r groups)"

definition group_rows :: "('r \<Rightarrow> 'k) \<Rightarrow> 'r list \<Rightarrow> ('k \<times> 'r list) list" where
  "group_rows key rows = foldl (\<lambda>groups r. add_to_group (key r) r groups) [] rows"

text \<open>
  The body of the second loop, for one group \<^verbatim>\<open>items\<close>, on the table \<open>tbl\<close>:
  \<^verbatim>\<open>
    if len(items) > 1:
        total_quantity = sum(item.quantity for item in items)
        first_item = items[0]
        first_item.quantity = total_quantity
        for item in items[1:]:
            await session.delete(item)
  \<close>
  The rows of \<^verbatim>\<open>items\<close> are the ORM objects loaded before the loop; an object stands for
  the table row with its primary key, so the assignment is an update of the row with
  the id of \<^verbatim>\<open>first_item\<close> and each delete removes the row with the id of the item.
  \<open>rid\<close>, \<open>qty\<close> and \<open>set_qty\<close> read the id, read the quantity and write the quantity
  of a row.
\<close>

definition set_quantity_by_id ::
  "('r \<Rightarrow> int) \<Rightarrow> (int \<Rightarrow> 'r \<Rightarrow> 'r) \<Rightarrow> int \<Rightarrow> int \<Rightarrow> 'r list \<Rightarrow> 'r list" where
  "set_quantity_by_id rid set_qty i v tbl = map (\<lambda>r. if rid r = i then set_qty v r else r) tbl"

definition delete_by_ids :: "('r \<Rightarrow> int) \<Rightarrow> int list \<Rightarrow> 'r list \<Rightarrow> 'r list" where
  "delete_by_ids rid ids tbl = filter (\<lambda>r. rid r \<notin> set ids) tbl"

fun collapse_group ::
  "('r \<Rightarrow> int) \<Rightarrow> ('r \<Rightarrow> int) \<Rightarrow> (int \<Rightarrow> 'r \<Rightarrow> 'r) \<Rightarrow> 'r list \<Rightarrow> 'r list \<Rightarrow> 'r list" where
  "collapse_group rid qty set_qty tbl (first_item # item # items) =
     (let total_quantity = sum_list (map qty (first_item # item # items))
      in delete_by_ids rid (map rid (item # items))
           (set_quantity_by_id rid set_qty (rid first_item) total_quantity tbl))"
| "collapse_group rid qty set_qty tbl items = tbl"

definition merge_groups ::
  "('r \<Rightarrow> int) \<Rightarrow> ('r \<Rightarrow> int) \<Rightarrow> (int \<Rightarrow> 'r \<Rightarrow> 'r) \<Rightarrow> ('r \<Rightarrow> 'k) \<Rightarrow> 'r list \<Rightarrow> 'r list \<Rightarrow> 'r list" where
  "merge_groups rid qty set_qty key items tbl =
     foldl (collapse_group rid qty set_qty) tbl (map snd (group_rows key items))"

section \<open>Cart (crud.py, CART)\<close>

datatype error = MultipleResultsFound

text \<open>\<^verbatim>\<open>Result.scalar_one_or_none()\<close> raises when the query returned several rows.\<close>

fun scalar_one_or_none :: "'a list \<Rightarrow> error + 'a option" where
  "scalar_one_or_none [] = Inr None"
| "scalar_one_or_none [x] = Inr (Some x)"
| "scalar_one_or_none (x # y # zs) = Inl MultipleResultsFound"

definition set_c_quantity :: "int \<Rightarrow> cart_row \<Rightarrow> cart_row" where
  "set_c_quantity v c = c\<lparr>c_quantity := v\<rparr>"

text \<open>\<^verbatim>\<open>select(Cart).where(Cart.user_id == user_id).order_by(Cart.id)\<close>\<close>

definition select_user_cart :: "db \<Rightarrow> int \<Rightarrow> cart_row list" where
  "select_user_cart d user_id = sort_key c_id (filter (\<lambda>c. c_user_id c = user_id) (cart d))"

definition merge_duplicate_cart_items :: "db \<Rightarrow> int \<Rightarrow> db" where
  "merge_duplicate_cart_items d user_id =
     (let cart_items = select_user_cart d user_id
      in if length cart_items \<le> 1 then d
         else d\<lparr>cart := merge_groups c_id c_quantity set_c_quantity c_product_id
                           cart_items (cart d)\<rparr>)"

text \<open>
  \<^verbatim>\<open>add_to_cart\<close> returns the cart row it incremented or inserted. The lookup by
  (user, product) is \<^verbatim>\<open>scalar_one_or_none\<close>, which raises on two rows.
\<close>

definition add_to_cart :: "db \<Rightarrow> int \<Rightarrow> int \<Rightarrow> int \<Rightarrow> error + (db \<times> cart_row)" where
  "add_to_cart d user_id product_id quantity =
     (let d1 = merge_duplicate_cart_items d user_id
      in case scalar_one_or_none
           (filter (\<lambda>c. c_user_id c = user_id \<and> c_product_id c = product_id) (cart d1)) of
           Inl e \<Rightarrow> Inl e
         | Inr (Some cart_item) \<Rightarrow>
             Inr (d1\<lparr>cart := set_quantity_by_id c_id set_c_quantity (c_id cart_item)
                               (c_quantity cart_item + quantity) (cart d1)\<rparr>,
                  cart_item\<lparr>c_quantity := c_quantity cart_item + quantity\<rparr>)
         | Inr None \<Rightarrow>
             (let cart_item = \<lparr>c_id = next_id (map c_id (cart d1)), c_user_id = user_id,
                               c_product_id = product_id, c_quantity = quantity\<rparr>
              in Inr (d1\<lparr>cart := cart d1 @ [cart_item]\<rparr>, cart_item)))"

definition get_user_cart :: "db \<Rightarrow> int \<Rightarrow> db \<times> cart_row list" where
  "get_user_cart d user_id =
     (let d1 = merge_duplicate_cart_items d user_id in (d1, select_user_cart d1 user_id))"

definition update_cart_item_quantity :: "db \<Rightarrow> int \<Rightarrow> int \<Rightarrow> db" where
  "update_cart_item_quantity d cart_id quantity =
     (if quantity \<le> 0 then d\<lparr>cart := filter (\<lambda>c. c_id c \<noteq> cart_id) (cart d)\<rparr>
      else d\<lparr>cart := set_quantity_by_id c_id set_c_quantity cart_id quantity (cart d)\<rparr>)"

definition remove_from_cart :: "db \<Rightarrow> int \<Rightarrow> db" where
  "remove_from_cart d cart_id = d\<lparr>cart := filter (\<lambda>c. c_id c \<noteq> cart_id) (cart d)\<rparr>"

definition clear_user_cart :: "db \<Rightarrow> int \<Rightarrow> db" where
  "clear_user_cart d user_id = d\<lparr>cart := filter (\<lambda>c. c_user_id c \<noteq> user_id) (cart d)\<rparr>"

text \<open>A run of \<^verbatim>\<open>add_to_cart\<close> calls for one user and product; an exception ends it.\<close>

fun add_all_to_cart :: "db \<Rightarrow> int \<Rightarrow> int \<Rightarrow> int list \<Rightarrow> error + db" where
  "add_all_to_cart d user_id product_id [] = Inr d"
| "add_all_to_cart d user_id product_id (q # qs) =
     (case add_to_cart d user_id product_id q of
        Inl e \<Rightarrow> Inl e
      | Inr (d', _) \<Rightarrow> add_all_to_cart d' user_id product_id qs)"

section \<open>Orders (crud.py, ORDERS)\<close>

definition set_oi_quantity :: "int \<Rightarrow> order_item_row \<Rightarrow> order_item_row" where
  "set_oi_quantity v i = i\<lparr>oi_quantity := v\<rparr>"

text \<open>
  The first statement of \<^verbatim>\<open>create_order\<close>: the user's orders with status
  \<^verbatim>\<open>'processing'\<close>, newest first, \<^verbatim>\<open>.first()\<close>. The sort is stable, so among orders
  with one \<^verbatim>\<open>created_at\<close> the one stored first is taken; no theorem below depends on
  that choice.
\<close>

definition find_processing_order :: "db \<Rightarrow> int \<Rightarrow> order_row option" where
  "find_processing_order d user_id =
     (case sort_key (\<lambda>ord. - created_at ord)
             (filter (\<lambda>ord. o_user_id ord = user_id \<and> status ord = ''processing'') (orders d)) of
        [] \<Rightarrow> None
      | existing_order # _ \<Rightarrow> Some existing_order)"

text \<open>
  The test both loops of \<^verbatim>\<open>create_order\<close> make on a cart entry:
  \<^verbatim>\<open>if product and product.is_available and product.stock_quantity >= cart_item.quantity\<close>
\<close>

definition accepted :: "db \<Rightarrow> cart_row \<Rightarrow> bool" where
  "accepted d cart_item =
     (case get_product_by_id d (c_product_id cart_item) of
        None \<Rightarrow> False
      | Some product \<Rightarrow> is_available product \<and> stock_quantity product \<ge> c_quantity cart_item)"

text \<open>
  One round of the loop of the amend path (an order \<^verbatim>\<open>existing_order\<close> with id
  \<open>order_id\<close> was found). The state is the database and \<^verbatim>\<open>total_price_add\<close>.
\<close>

definition amend_item :: "int \<Rightarrow> db \<times> real \<Rightarrow> cart_row \<Rightarrow> db \<times> real" where
  "amend_item order_id st cart_item =
     (case st of (d, total_price_add) \<Rightarrow>
      (case get_product_by_id d (c_product_id cart_item) of
         None \<Rightarrow> (d, total_price_add)
       | Some product \<Rightarrow>
           if is_available product \<and> stock_quantity product \<ge> c_quantity cart_item then
             (let item_price = price product * real_of_int (c_quantity cart_item);
                  existing_items =
                    filter (\<lambda>i. oi_order_id i = order_id
                                 \<and> oi_product_id i = c_product_id cart_item
                                 \<and> price_at_order i = price product) (order_items d);
                  d1 = (case existing_items of
                          first_item # duplicates \<Rightarrow>
                            d\<lparr>order_items :=
                                delete_by_ids oi_id (map oi_id duplicates)
                                  (set_quantity_by_id oi_id set_oi_quantity (oi_id first_item)
                                     (oi_quantity first_item + c_quantity cart_item)
                                     (order_items d))\<rparr>
                        | [] \<Rightarrow>
                            d\<lparr>order_items := order_items d @
                                [\<lparr>oi_id = next_id (map oi_id (order_items d)),
                                  oi_order_id = order_id,
                                  oi_product_id = c_product_id cart_item,
                                  oi_quantity = c_quantity cart_item,
                                  price_at_order = price product\<rparr>]\<rparr>)
              in (update_stock d1 (c_product_id cart_item) (- c_quantity cart_item),
                  total_price_add + item_price))
           else (d, total_price_add)))"

text \<open>
  One round of the loop of the create path. The state is the database,
  \<^verbatim>\<open>total_price\<close> (\<open>price_sum\<close>) and \<^verbatim>\<open>order_items_list\<close> (product id, quantity, price at order).
\<close>

definition collect_item ::
  "db \<times> real \<times> (int \<times> int \<times> real) list \<Rightarrow> cart_row \<Rightarrow> db \<times> real \<times> (int \<times> int \<times> real) list" where
  "collect_item st cart_item =
     (case st of (d, price_sum, order_items_list) \<Rightarrow>
      (case get_product_by_id d (c_product_id cart_item) of
         None \<Rightarrow> (d, price_sum, order_items_list)
       | Some product \<Rightarrow>
           if is_available product \<and> stock_quantity product \<ge> c_quantity cart_item then
             (let item_price = price product * real_of_int (c_quantity cart_item)
              in (update_stock d (c_product_id cart_item) (- c_quantity cart_item),
                  price_sum + item_price,
                  order_items_list @
                    [(c_product_id cart_item, c_quantity cart_item, price product)]))
           else (d, price_sum, order_items_list)))"

text \<open>\<^verbatim>\<open>session.add(OrderItem(order_id=order.id, **item_data))\<close>\<close>

definition insert_order_item :: "int \<Rightarrow> order_item_row list \<Rightarrow> int \<times> int \<times> real \<Rightarrow> order_item_row list" where
  "insert_order_item order_id tbl item_data =
     (case item_data of (pid, q, pr) \<Rightarrow>
        tbl @ [\<lparr>oi_id = next_id (map oi_id tbl), oi_order_id = order_id, oi_product_id = pid,
                 oi_quantity = q, price_at_order = pr\<rparr>])"

text \<open>
  \<^verbatim>\<open>create_order\<close>. \<open>now\<close> is the clock reading that becomes \<^verbatim>\<open>created_at\<close> of a new
  order; \<^verbatim>\<open>status\<close> takes its column default \<^verbatim>\<open>'processing'\<close>. The function returns
  the database and the order object it returns in the source.
\<close>

definition create_order ::
  "db \<Rightarrow> int \<Rightarrow> cart_row list \<Rightarrow> string option \<Rightarrow> string \<Rightarrow> real \<Rightarrow> int \<Rightarrow> db \<times> order_row" where
  "create_order d user_id cart_items contact delivery fee now =
     (case find_processing_order d user_id of
        Some existing_order \<Rightarrow>
          (case foldl (amend_item (o_id existing_order)) (d, 0) cart_items of
             (d1, total_price_add) \<Rightarrow>
               (let new_total = total_price existing_order + total_price_add;
                    d2 = d1\<lparr>orders := map (\<lambda>ord. if o_id ord = o_id existing_order
                                                then ord\<lparr>total_price := new_total\<rparr> else ord)
                                          (orders d1)\<rparr>
                in (clear_user_cart d2 user_id, existing_order\<lparr>total_price := new_total\<rparr>)))
      | None \<Rightarrow>
          (case foldl collect_item (d, 0, []) cart_items of
             (d1, price_sum, order_items_list) \<Rightarrow>
               (let grand_total = price_sum + fee;
                    new_order = \<lparr>o_id = next_id (map o_id (orders d1)), o_user_id = user_id,
                             total_price = grand_total, status = ''processing'',
                             delivery_method = delivery, delivery_fee = fee,
                             contact_info = contact, created_at = now\<rparr>;
                    d2 = d1\<lparr>orders := orders d1 @ [new_order]\<rparr>;
                    d3 = d2\<lparr>order_items :=
                              foldl (insert_order_item (o_id new_order)) (order_items d2)
                                order_items_list\<rparr>
                in (clear_user_cart d3 user_id, new_order))))"

text \<open>\<^verbatim>\<open>get_order_by_id\<close>: a lookup by primary key.\<close>

definition get_order_by_id :: "db \<Rightarrow> int \<Rightarrow> order_row option" where
  "get_order_by_id d order_id = find (\<lambda>ord. o_id ord = order_id) (orders d)"

text \<open>\<^verbatim>\<open>key = (item.product_id, item.price_at_order)\<close>\<close>

definition item_key :: "order_item_row \<Rightarrow> int \<times> real" where
  "item_key item = (oi_product_id item, price_at_order item)"

definition merge_duplicate_order_items :: "db \<Rightarrow> int \<Rightarrow> db" where
  "merge_duplicate_order_items d order_id =
     (let order_items_sel = filter (\<lambda>i. oi_order_id i = order_id) (order_items d)
      in d\<lparr>order_items :=
             merge_groups oi_id oi_quantity set_oi_quantity item_key
               order_items_sel (order_items d)\<rparr>)"

definition update_order_status :: "db \<Rightarrow> int \<Rightarrow> string \<Rightarrow> db" where
  "update_order_status d order_id new_status =
     d\<lparr>orders := map (\<lambda>ord. if o_id ord = order_id then ord\<lparr>status := new_status\<rparr> else ord)
                    (orders d)\<rparr>"

text \<open>
  \<^verbatim>\<open>delete_order\<close>:
  \<^verbatim>\<open>
    order = await get_order_by_id(session, order_id)
    if not order:
        return False
    items = (select(OrderItem).where(OrderItem.order_id == order_id)) ...
    for item in items:
        await update_stock(session, item.product_id, item.quantity)
    # (OrderItems are deleted automatically through cascade)
    await session.execute(delete(Order).where(Order.id == order_id))
    await session.commit()
    return True
  \<close>
  The last statement is a \<^verbatim>\<open>DELETE FROM orders WHERE id = order_id\<close> sent to the
  database. The \<^verbatim>\<open>cascade="all, delete-orphan"\<close> of \<^verbatim>\<open>Order.items\<close> is carried out by
  the ORM's unit of work for \<^verbatim>\<open>session.delete(order)\<close>; a \<^verbatim>\<open>delete()\<close> statement does
  not go through it. In the database, \<^verbatim>\<open>ForeignKey('orders.id')\<close> of
  \<^verbatim>\<open>order_items.order_id\<close> declares no \<^verbatim>\<open>ON DELETE CASCADE\<close>. So the statement
  removes rows of \<^verbatim>\<open>orders\<close> only.
\<close>

definition delete_order :: "db \<Rightarrow> int \<Rightarrow> db \<times> bool" where
  "delete_order d order_id =
     (case get_order_by_id d order_id of
        None \<Rightarrow> (d, False)
      | Some order \<Rightarrow>
          (let items = filter (\<lambda>i. oi_order_id i = order_id) (order_items d);
               d1 = foldl (\<lambda>s item. update_stock s (oi_product_id item) (oi_quantity item))
                      d items
           in (d1\<lparr>orders := filter (\<lambda>ord. o_id ord \<noteq> order_id) (orders d1)\<rparr>, True)))"

section \<open>Notions used to state the properties\<close>

text \<open>
  What the two merge operations compute, said directly. \<open>S\<close> selects the rows the
  operation loads (the cart rows of a user, the line items of an order) and \<open>key\<close> is
  the grouping key. A selected row stays when it is the first row of the table with its
  key among the selected rows, and its quantity becomes the sum of the quantities of
  all selected rows with that key; the other selected rows go; rows not selected stay as
  they are. \<open>merged_upto\<close> does this for the keys of \<open>K\<close> only. \<open>row_laws\<close> says that
  \<open>set_qty\<close> writes the quantity of a row and nothing else.
\<close>

definition merged_upto ::
  "('r \<Rightarrow> int) \<Rightarrow> ('r \<Rightarrow> int) \<Rightarrow> (int \<Rightarrow> 'r \<Rightarrow> 'r) \<Rightarrow> ('r \<Rightarrow> 'k) \<Rightarrow> ('r \<Rightarrow> bool) \<Rightarrow> 'k set
     \<Rightarrow> 'r list \<Rightarrow> 'r list" where
  "merged_upto rid qty set_qty key S K tbl =
     map (\<lambda>r. if S r \<and> key r \<in> K
              then set_qty (sum_list (map qty (filter (\<lambda>x. S x \<and> key x = key r) tbl))) r
              else r)
       (filter (\<lambda>r. S r \<and> key r \<in> K \<longrightarrow>
                    rid r = rid (hd (filter (\<lambda>x. S x \<and> key x = key r) tbl))) tbl)"

definition merged ::
  "('r \<Rightarrow> int) \<Rightarrow> ('r \<Rightarrow> int) \<Rightarrow> (int \<Rightarrow> 'r \<Rightarrow> 'r) \<Rightarrow> ('r \<Rightarrow> 'k) \<Rightarrow> ('r \<Rightarrow> bool)
     \<Rightarrow> 'r list \<Rightarrow> 'r list" where
  "merged rid qty set_qty key S tbl =
     map (\<lambda>r. if S r
              then set_qty (sum_list (map qty (filter (\<lambda>x. S x \<and> key x = key r) tbl))) r
              else r)
       (filter (\<lambda>r. S r \<longrightarrow> rid r = rid (hd (filter (\<lambda>x. S x \<and> key x = key r) tbl))) tbl)"

definition row_laws ::
  "('r \<Rightarrow> int) \<Rightarrow> ('r \<Rightarrow> int) \<Rightarrow> (int \<Rightarrow> 'r \<Rightarrow> 'r) \<Rightarrow> ('r \<Rightarrow> 'k) \<Rightarrow> ('r \<Rightarrow> bool) \<Rightarrow> bool" where
  "row_laws rid qty set_qty key S =
     ((\<forall>v r. rid (set_qty v r) = rid r \<and> key (set_qty v r) = key r
             \<and> S (set_qty v r) = S r \<and> qty (set_qty v r) = v)
      \<and> (\<forall>r. set_qty (qty r) r = r))"

text \<open>
  The line items of an order, and those with one key. \<open>merged_order_items\<close> is the
  table the spec describes for \<^verbatim>\<open>mergeDuplicateLineItems\<close>: every group of line items of
  the order with one (product, price_at_order) is replaced by its first item, carrying
  the sum of the group's quantities. \<open>line_content\<close> is a line item without its id,
  \<open>key_quantity\<close> the quantity an order holds of one (product, price_at_order).
\<close>

definition order_lines :: "order_item_row list \<Rightarrow> int \<Rightarrow> order_item_row list" where
  "order_lines tbl order_id = filter (\<lambda>i. oi_order_id i = order_id) tbl"

definition lines_with_key :: "order_item_row list \<Rightarrow> int \<Rightarrow> int \<times> real \<Rightarrow> order_item_row list" where
  "lines_with_key tbl order_id k = filter (\<lambda>i. oi_order_id i = order_id \<and> item_key i = k) tbl"

definition merged_order_items :: "order_item_row list \<Rightarrow> int \<Rightarrow> order_item_row list" where
  "merged_order_items tbl order_id =
     map (\<lambda>i. if oi_order_id i = order_id
              then i\<lparr>oi_quantity :=
                     sum_list (map oi_quantity (lines_with_key tbl order_id (item_key i)))\<rparr>
              else i)
       (filter (\<lambda>i. oi_order_id i = order_id \<longrightarrow>
                    oi_id i = oi_id (hd (lines_with_key tbl order_id (item_key i)))) tbl)"



text \<open>
  The cart rows of a user for one product, and the property that a user's cart has at
  most one row per product.
\<close>

definition cart_rows :: "cart_row list \<Rightarrow> int \<Rightarrow> int \<Rightarrow> cart_row list" where
  "cart_rows tbl user_id product_id =
     filter (\<lambda>c. c_user_id c = user_id \<and> c_product_id c = product_id) tbl"

definition one_row_per_product :: "cart_row list \<Rightarrow> int \<Rightarrow> bool" where
  "one_row_per_product tbl user_id =
     distinct (map c_product_id (filter (\<lambda>c. c_user_id c = user_id) tbl))"

text \<open>
  The cart entries \<^verbatim>\<open>create_order\<close> accepts, in the order it meets them, each with the
  product row it read for the entry: an entry is accepted when it passes the test
  \<open>accepted\<close> on the database as the entries before it have left it, and an accepted
  entry takes its quantity from the stock before the next entry is looked at.
  \<open>after_entries\<close> is the database once the stock of the accepted entries is taken,
  \<open>line_price\<close> is \<^verbatim>\<open>product.price * cart_item.quantity\<close>, \<open>taken\<close> the quantity the
  accepted entries ask of one product and \<open>asked\<close> the quantity they ask at one
  (product, price).
\<close>

fun accepted_entries :: "db \<Rightarrow> cart_row list \<Rightarrow> (cart_row \<times> product_row) list" where
  "accepted_entries d [] = []"
| "accepted_entries d (e # es) =
     (case get_product_by_id d (c_product_id e) of
        None \<Rightarrow> accepted_entries d es
      | Some product \<Rightarrow>
          if is_available product \<and> stock_quantity product \<ge> c_quantity e
          then (e, product) # accepted_entries (update_stock d (c_product_id e) (- c_quantity e)) es
          else accepted_entries d es)"

fun after_entries :: "db \<Rightarrow> cart_row list \<Rightarrow> db" where
  "after_entries d [] = d"
| "after_entries d (e # es) =
     after_entries (if accepted d e then update_stock d (c_product_id e) (- c_quantity e) else d) es"

definition line_price :: "cart_row \<times> product_row \<Rightarrow> real" where
  "line_price a = price (snd a) * real_of_int (c_quantity (fst a))"

definition taken :: "db \<Rightarrow> cart_row list \<Rightarrow> int \<Rightarrow> int" where
  "taken d es product_id =
     sum_list (map (\<lambda>a. c_quantity (fst a))
       (filter (\<lambda>a. c_product_id (fst a) = product_id) (accepted_entries d es)))"


text \<open>
  The database as the loop of \<^verbatim>\<open>create_order\<close> (of either path) has left it after the
  cart entries \<open>es\<close>.
\<close>

definition loop_state :: "db \<Rightarrow> int \<Rightarrow> cart_row list \<Rightarrow> db" where
  "loop_state d user_id es =
     (case find_processing_order d user_id of
        Some existing_order \<Rightarrow> fst (foldl (amend_item (o_id existing_order)) (d, 0) es)
      | None \<Rightarrow> fst (foldl collect_item (d, 0, []) es))"

text \<open>
  The orders of a user with status \<^verbatim>\<open>'processing'\<close>.
\<close>

definition processing_orders :: "order_row list \<Rightarrow> int \<Rightarrow> order_row list" where
  "processing_orders tbl user_id =
     filter (\<lambda>ord. o_user_id ord = user_id \<and> status ord = ''processing'') tbl"

text \<open>
  The operations as one step function, and the storage order of the two tables whose
  rows the operations address by id: ids strictly increase along the table.
\<close>

datatype shop_op =
    Add_to_cart int int int
  | Get_user_cart int
  | Update_cart_item_quantity int int
  | Remove_from_cart int
  | Clear_user_cart int
  | Create_order int "cart_row list" "string option" string real int
  | Merge_duplicate_order_items int
  | Update_order_status int string
  | Delete_order int
  | Catalog catalog_op

fun shop_step :: "db \<Rightarrow> shop_op \<Rightarrow> db" where
  "shop_step d (Add_to_cart u p q) =
     (case add_to_cart d u p q of Inr (d', row) \<Rightarrow> d' | Inl e \<Rightarrow> d)"
| "shop_step d (Get_user_cart u) = fst (get_user_cart d u)"
| "shop_step d (Update_cart_item_quantity i q) = update_cart_item_quantity d i q"
| "shop_step d (Remove_from_cart i) = remove_from_cart d i"
| "shop_step d (Clear_user_cart u) = clear_user_cart d u"
| "shop_step d (Create_order u es contact delivery fee now) =
     fst (create_order d u es contact delivery fee now)"
| "shop_step d (Merge_duplicate_order_items i) = merge_duplicate_order_items d i"
| "shop_step d (Update_order_status i st) = update_order_status d i st"
| "shop_step d (Delete_order i) = fst (delete_order d i)"
| "shop_step d (Catalog x) = catalog_step d x"

definition id_order :: "db \<Rightarrow> bool" where
  "id_order d =
     (sorted_wrt (<) (map c_id (cart d)) \<and> sorted_wrt (<) (map oi_id (order_items d)))"

section \<open>Sample databases: the scenarios of the spec\<close>

text \<open>
  A shop with three products (the third out of stock) and no carts or orders.
\<close>

definition shop0 :: db where
  "shop0 = \<lparr>models = Map.empty,
     products = [1 \<mapsto> \<lparr>model_id = 1, flavor_name = ''X'', price = 10, stock_quantity = 5,
                        is_available = True\<rparr>,
                 2 \<mapsto> \<lparr>model_id = 1, flavor_name = ''Y'', price = 8, stock_quantity = 4,
                        is_available = True\<rparr>,
                 3 \<mapsto> \<lparr>model_id = 1, flavor_name = ''Z'', price = 5, stock_quantity = 0,
                        is_available = True\<rparr>],
     cart = [], orders = [], order_items = []\<rparr>"

text \<open>
  Scenario A: user 7 has product 1 (X) three times and product 2 (Y) once in the cart.
\<close>

definition cart_a :: "cart_row list" where
  "cart_a = [\<lparr>c_id = 1, c_user_id = 7, c_product_id = 1, c_quantity = 3\<rparr>,
             \<lparr>c_id = 2, c_user_id = 7, c_product_id = 2, c_quantity = 1\<rparr>]"

definition scenario_a :: db where
  "scenario_a = shop0\<lparr>cart := cart_a\<rparr>"



text \<open>
  Scenario C and the state the repair is there for: \<open>dup_cart\<close> has two rows for
  user 7 and product 1 (as two concurrent \<^verbatim>\<open>add_to_cart\<close> calls can leave them) and one
  row for product 2; \<open>clean_cart\<close> is the same cart with the two rows merged.
\<close>

definition dup_cart :: db where
  "dup_cart = shop0\<lparr>cart :=
     [\<lparr>c_id = 1, c_user_id = 7, c_product_id = 1, c_quantity = 3\<rparr>,
      \<lparr>c_id = 2, c_user_id = 7, c_product_id = 1, c_quantity = 3\<rparr>,
      \<lparr>c_id = 3, c_user_id = 7, c_product_id = 2, c_quantity = 1\<rparr>]\<rparr>"


text \<open>
  Scenario D: order 7 with the line items X (quantity 5) and Y (quantity 1).
\<close>

definition scenario_d :: db where
  "scenario_d = shop0\<lparr>
     orders := [\<lparr>o_id = 7, o_user_id = 3, total_price = 58, status = ''processing'',
                 delivery_method = ''pickup'', delivery_fee = 0, contact_info = None,
                 created_at = 50\<rparr>],
     order_items :=
       [\<lparr>oi_id = 1, oi_order_id = 7, oi_product_id = 1, oi_quantity = 5, price_at_order = 10\<rparr>,
        \<lparr>oi_id = 2, oi_order_id = 7, oi_product_id = 2, oi_quantity = 1, price_at_order = 8\<rparr>]\<rparr>"

text \<open>
  Scenario E: a cart entry for product 3 (Z), which is out of stock.
\<close>

definition entry_z :: cart_row where
  "entry_z = \<lparr>c_id = 3, c_user_id = 7, c_product_id = 3, c_quantity = 1\<rparr>"

text \<open>
  An order with the line items 1 and 4 for the same product at the same price.
\<close>

definition shop7 :: db where
  "shop7 = shop0\<lparr>
     orders := [\<lparr>o_id = 7, o_user_id = 3, total_price = 90, status = ''processing'',
                 delivery_method = ''pickup'', delivery_fee = 0, contact_info = None,
                 created_at = 50\<rparr>],
     order_items :=
       [\<lparr>oi_id = 1, oi_order_id = 7, oi_product_id = 1, oi_quantity = 5, price_at_order = 10\<rparr>,
        \<lparr>oi_id = 2, oi_order_id = 7, oi_product_id = 2, oi_quantity = 1, price_at_order = 8\<rparr>,
        \<lparr>oi_id = 3, oi_order_id = 8, oi_product_id = 1, oi_quantity = 2, price_at_order = 10\<rparr>,
        \<lparr>oi_id = 4, oi_order_id = 7, oi_product_id = 1, oi_quantity = 2, price_at_order = 10\<rparr>,
        \<lparr>oi_id = 5, oi_order_id = 7, oi_product_id = 1, oi_quantity = 1, price_at_order = 12\<rparr>]\<rparr>"


section \<open>Stock adjustment\<close>

lemma update_stock_product:
  "products d pid = Some p \<Longrightarrow>
   update_stock d pid q =
     d\<lparr>products := (products d)(pid \<mapsto> p\<lparr>stock_quantity := max 0 (stock_quantity p + q)\<rparr>)\<rparr>"
  by (simp add: update_stock_def get_product_by_id_def update_product_def assign_product_def
      no_values_def Let_def)

lemma update_stock_absent: "products d pid = None \<Longrightarrow> update_stock d pid q = d"
  by (simp add: update_stock_def get_product_by_id_def)



section \<open>Price snapshot\<close>

text \<open>
  Claim C9. No catalog mutation (creating, updating or deleting a model or a product,
  adjusting stock) changes the \<^verbatim>\<open>order_items\<close> table; in particular, after
  \<^verbatim>\<open>update_product\<close> sets a new price, every line item still has the
  \<^verbatim>\<open>price_at_order\<close> it was written with.
\<close>

theorem catalog_keeps_price_at_order:
  "order_items (foldl catalog_step d ops) = order_items d
   \<and> map price_at_order (order_items (update_product d pid (no_values\<lparr>set_price := Some v\<rparr>)))
       = map price_at_order (order_items d)"
proof -
  have step: "order_items (catalog_step s x) = order_items s" for s x
    by (cases x)
       (simp_all add: create_model_def update_model_def delete_model_def create_product_def
          update_product_def update_stock_def delete_product_def get_product_by_id_def Let_def
          split: option.splits)
  have "order_items (foldl catalog_step s ops) = order_items s" for s
    by (induction ops arbitrary: s) (simp_all add: step)
  moreover have "order_items (update_product d pid kw) = order_items d" for kw
    by (simp add: update_product_def split: option.splits)
  ultimately show ?thesis by simp
qed

theorem catalog_keeps_price_at_order_witness:
  "map_option price (products (update_product shop7 1 (no_values\<lparr>set_price := Some 99\<rparr>)) 1)
     = Some 99
   \<and> map price_at_order
        (order_items (update_product shop7 1 (no_values\<lparr>set_price := Some 99\<rparr>)))
     = [10, 8, 10, 10, 12]"
  using catalog_keeps_price_at_order [of shop7 "[]" 1 99]
  by (simp add: shop7_def shop0_def update_product_def assign_product_def no_values_def)

section \<open>The merge operations compute the merged table\<close>

lemma map_of_add_to_group:
  "map_of (add_to_group k r gs) =
     (map_of gs)(k \<mapsto> (case map_of gs k of None \<Rightarrow> [r] | Some rs \<Rightarrow> rs @ [r]))"
  by (induction gs) (auto simp: fun_eq_iff)

lemma keys_add_to_group:
  "map fst (add_to_group k r gs) = (if k \<in> set (map fst gs) then map fst gs else map fst gs @ [k])"
proof (induction gs)
  case Nil
  show ?case by simp
next
  case (Cons g gs)
  obtain k' rs where g: "g = (k', rs)" by (cases g)
  show ?case
  proof (cases "k' = k")
    case True
    then show ?thesis by (simp add: g)
  next
    case False
    with Cons show ?thesis by (simp add: g)
  qed
qed

lemma group_rows_snoc:
  "group_rows key (rows @ [r]) = add_to_group (key r) r (group_rows key rows)"
  by (simp add: group_rows_def)

lemma group_rows_keys:
  "distinct (map fst (group_rows key rows)) \<and> set (map fst (group_rows key rows)) = key ` set rows"
proof (induction rows rule: rev_induct)
  case Nil
  show ?case by (simp add: group_rows_def)
next
  case (snoc r rows)
  then show ?case
    by (auto simp: group_rows_snoc keys_add_to_group)
qed

lemma group_rows_lookup:
  "map_of (group_rows key rows) k =
     (if k \<in> key ` set rows then Some (filter (\<lambda>r. key r = k) rows) else None)"
proof (induction rows rule: rev_induct)
  case Nil
  show ?case by (simp add: group_rows_def)
next
  case (snoc r rows)
  have "filter (\<lambda>x. key x = k) rows = []" if "k \<notin> key ` set rows"
    using that by (auto simp: filter_empty_conv)
  with snoc show ?case
    by (auto simp: group_rows_snoc map_of_add_to_group)
qed

lemma group_rows_member:
  assumes "(k, g) \<in> set (group_rows key rows)"
  shows "g = filter (\<lambda>r. key r = k) rows \<and> k \<in> key ` set rows"
proof -
  have "map_of (group_rows key rows) k = Some g"
    using assms group_rows_keys [of key rows] by simp
  then show ?thesis
    by (simp add: group_rows_lookup split: if_splits)
qed

lemma map_filter_cong:
  assumes "\<And>r. r \<in> set xs \<Longrightarrow> P r = Q r"
    and "\<And>r. r \<in> set xs \<Longrightarrow> Q r \<Longrightarrow> f r = g r"
  shows "map f (filter P xs) = map g (filter Q xs)"
  using assms by (induction xs) auto

lemma delete_set_map_filter:
  assumes "\<And>r. rid (F r) = rid r" and "\<And>v r. rid (set_qty v r) = rid r"
  shows "delete_by_ids rid ids (set_quantity_by_id rid set_qty i v (map F (filter P tbl))) =
           map (\<lambda>r. if rid r = i then set_qty v (F r) else F r)
             (filter (\<lambda>r. rid r \<notin> set ids \<and> P r) tbl)"
  using assms
  by (induction tbl) (auto simp: delete_by_ids_def set_quantity_by_id_def)

lemma collapse_group_step:
  assumes laws: "row_laws rid qty set_qty key S"
    and dist: "distinct (map rid tbl)"
    and kK: "k \<notin> K"
    and g: "g = filter (\<lambda>x. S x \<and> key x = k) tbl"
    and ne: "g \<noteq> []"
  shows "collapse_group rid qty set_qty (merged_upto rid qty set_qty key S K tbl) g =
           merged_upto rid qty set_qty key S (insert k K) tbl"
proof -
  from ne obtain f rest where fr: "g = f # rest" by (cases g) auto
  have inj: "inj_on rid (set tbl)" using dist by (simp add: distinct_map)
  have dg: "distinct (map rid (f # rest))"
    using dist unfolding fr [symmetric] g by (rule distinct_map_filter)
  have g_iff: "r \<in> set g \<longleftrightarrow> r \<in> set tbl \<and> S r \<and> key r = k" for r
    by (auto simp: g)
  have f_in: "f \<in> set tbl" "S f" "key f = k"
    using g_iff [of f] by (simp_all add: fr)
  have rest_in: "x \<in> set tbl \<and> S x \<and> key x = k \<and> rid x \<noteq> rid f" if "x \<in> set rest" for x
  proof -
    have "rid f \<notin> rid ` set rest" using dg by simp
    with that have "rid x \<noteq> rid f" by (metis imageI)
    with that g_iff [of x] show ?thesis by (simp add: fr)
  qed
  have grp_k: "filter (\<lambda>x. S x \<and> key x = k) tbl = f # rest"
    using g fr by simp
  have rid_set: "rid (set_qty v r) = rid r" for r v
    using laws by (simp add: row_laws_def)
  have rid_F: "rid (if S r \<and> key r \<in> K then set_qty v r else r) = rid r" for r v
    using laws by (simp add: row_laws_def)
  have not_rest: "rid r \<notin> set (map rid rest)" if "r \<in> set tbl" "\<not> (S r \<and> key r = k)" for r
  proof
    assume "rid r \<in> set (map rid rest)"
    then obtain x where x: "x \<in> set rest" "rid x = rid r" by auto
    with rest_in [of x] that(1) inj have "x = r" by (auto dest: inj_onD)
    with rest_in [of x] x(1) that(2) show False by simp
  qed
  have not_f: "rid r \<noteq> rid f" if "r \<in> set tbl" "\<not> (S r \<and> key r = k)" for r
  proof
    assume "rid r = rid f"
    with inj that(1) f_in(1) have "r = f" by (auto dest: inj_onD)
    with f_in that(2) show False by simp
  qed
  show ?thesis
  proof (cases rest)
    case Nil
    have tot: "sum_list (map qty (filter (\<lambda>x. S x \<and> key x = k) tbl)) = qty f"
      by (simp add: grp_k Nil)
    have same: "set_qty (qty f) f = f" using laws by (simp add: row_laws_def)
    have "merged_upto rid qty set_qty key S K tbl = merged_upto rid qty set_qty key S (insert k K) tbl"
      unfolding merged_upto_def
    proof (rule map_filter_cong)
      fix r assume r: "r \<in> set tbl"
      show "(S r \<and> key r \<in> K \<longrightarrow> rid r = rid (hd (filter (\<lambda>x. S x \<and> key x = key r) tbl))) =
            (S r \<and> key r \<in> insert k K \<longrightarrow> rid r = rid (hd (filter (\<lambda>x. S x \<and> key x = key r) tbl)))"
      proof (cases "S r \<and> key r = k")
        case True
        then have "r \<in> set g" using r by (simp add: g_iff)
        then have "r = f" by (simp add: fr Nil)
        then show ?thesis using kK True by (simp add: grp_k)
      next
        case False
        then show ?thesis by auto
      qed
    next
      fix r assume r: "r \<in> set tbl"
      show "(if S r \<and> key r \<in> K
              then set_qty (sum_list (map qty (filter (\<lambda>x. S x \<and> key x = key r) tbl))) r else r) =
            (if S r \<and> key r \<in> insert k K
              then set_qty (sum_list (map qty (filter (\<lambda>x. S x \<and> key x = key r) tbl))) r else r)"
      proof (cases "S r \<and> key r = k")
        case True
        then have "r \<in> set g" using r by (simp add: g_iff)
        then have "r = f" by (simp add: fr Nil)
        then show ?thesis using kK True tot same by simp
      next
        case False
        then show ?thesis by auto
      qed
    qed
    then show ?thesis by (simp add: fr Nil)
  next
    case (Cons r1 rs)
    have "collapse_group rid qty set_qty (merged_upto rid qty set_qty key S K tbl) g =
            delete_by_ids rid (map rid rest)
              (set_quantity_by_id rid set_qty (rid f) (sum_list (map qty (f # rest)))
                 (merged_upto rid qty set_qty key S K tbl))"
      by (simp add: fr Cons)
    also have "\<dots> = merged_upto rid qty set_qty key S (insert k K) tbl"
      unfolding merged_upto_def
    proof (subst delete_set_map_filter, rule rid_F, rule rid_set, rule map_filter_cong)
      fix r assume r: "r \<in> set tbl"
      show "(rid r \<notin> set (map rid rest) \<and>
             (S r \<and> key r \<in> K \<longrightarrow> rid r = rid (hd (filter (\<lambda>x. S x \<and> key x = key r) tbl)))) =
            (S r \<and> key r \<in> insert k K \<longrightarrow> rid r = rid (hd (filter (\<lambda>x. S x \<and> key x = key r) tbl)))"
      proof (cases "S r \<and> key r = k")
        case True
        then have "r \<in> set g" using r by (simp add: g_iff)
        then consider "r = f" | "r \<in> set rest" by (auto simp: fr)
        then show ?thesis
        proof cases
          case 1
          then show ?thesis using kK True dg by (auto simp: grp_k)
        next
          case 2
          then show ?thesis using kK True rest_in [of r] by (auto simp: grp_k)
        qed
      next
        case False
        then show ?thesis using not_rest [OF r] by auto
      qed
    next
      fix r assume r: "r \<in> set tbl"
        and q: "S r \<and> key r \<in> insert k K \<longrightarrow> rid r = rid (hd (filter (\<lambda>x. S x \<and> key x = key r) tbl))"
      show "(if rid r = rid f
               then set_qty (sum_list (map qty (f # rest)))
                      (if S r \<and> key r \<in> K
                       then set_qty (sum_list (map qty (filter (\<lambda>x. S x \<and> key x = key r) tbl))) r else r)
               else (if S r \<and> key r \<in> K
                       then set_qty (sum_list (map qty (filter (\<lambda>x. S x \<and> key x = key r) tbl))) r else r)) =
            (if S r \<and> key r \<in> insert k K
              then set_qty (sum_list (map qty (filter (\<lambda>x. S x \<and> key x = key r) tbl))) r else r)"
      proof (cases "S r \<and> key r = k")
        case True
        with q have "rid r = rid f" by (simp add: grp_k)
        with inj r f_in(1) have "r = f" by (auto dest: inj_onD)
        then show ?thesis using kK f_in by (simp add: grp_k)
      next
        case False
        then show ?thesis using not_f [OF r] by auto
      qed
    qed
    finally show ?thesis .
  qed
qed

lemma merged_upto_empty: "merged_upto rid qty set_qty key S {} tbl = tbl"
  by (simp add: merged_upto_def)

lemma collapse_groups_fold:
  assumes laws: "row_laws rid qty set_qty key S"
    and dist: "distinct (map rid tbl)"
  shows "distinct (map fst gs) \<Longrightarrow> fst ` set gs \<inter> K = {} \<Longrightarrow>
         (\<And>k g. (k, g) \<in> set gs \<Longrightarrow> g = filter (\<lambda>x. S x \<and> key x = k) tbl \<and> g \<noteq> []) \<Longrightarrow>
         foldl (collapse_group rid qty set_qty) (merged_upto rid qty set_qty key S K tbl) (map snd gs)
           = merged_upto rid qty set_qty key S (K \<union> fst ` set gs) tbl"
proof (induction gs arbitrary: K)
  case Nil
  show ?case by simp
next
  case (Cons a gs)
  obtain k g where a: "a = (k, g)" by (cases a)
  have kK: "k \<notin> K" using Cons.prems(2) by (auto simp: a)
  have g: "g = filter (\<lambda>x. S x \<and> key x = k) tbl" "g \<noteq> []"
    using Cons.prems(3) [of k g] a by (meson list.set_intros(1))+
  have step: "collapse_group rid qty set_qty (merged_upto rid qty set_qty key S K tbl) g
                = merged_upto rid qty set_qty key S (insert k K) tbl"
    by (rule collapse_group_step [OF laws dist kK g])
  have "foldl (collapse_group rid qty set_qty) (merged_upto rid qty set_qty key S (insert k K) tbl)
          (map snd gs) = merged_upto rid qty set_qty key S (insert k K \<union> fst ` set gs) tbl"
  proof (rule Cons.IH)
    show "distinct (map fst gs)" using Cons.prems(1) by simp
    show "fst ` set gs \<inter> insert k K = {}" using Cons.prems(1,2) by (auto simp: a)
    show "g' = filter (\<lambda>x. S x \<and> key x = k') tbl \<and> g' \<noteq> []" if "(k', g') \<in> set gs" for k' g'
      using Cons.prems(3) [of k' g'] that by (meson list.set_intros(2))
  qed
  then show ?case by (simp add: a step)
qed

lemma merge_groups_merged:
  assumes laws: "row_laws rid qty set_qty key S"
    and dist: "distinct (map rid tbl)"
  shows "merge_groups rid qty set_qty key (filter S tbl) tbl = merged rid qty set_qty key S tbl"
proof -
  let ?gs = "group_rows key (filter S tbl)"
  have keys: "distinct (map fst ?gs)" "fst ` set ?gs = key ` set (filter S tbl)"
    using group_rows_keys [of key "filter S tbl"] by simp_all
  have grp: "g = filter (\<lambda>x. S x \<and> key x = k) tbl \<and> g \<noteq> []" if "(k, g) \<in> set ?gs" for k g
  proof -
    from group_rows_member [OF that]
    have g: "g = filter (\<lambda>r. key r = k) (filter S tbl)" and k: "k \<in> key ` set (filter S tbl)"
      by simp_all
    from k have "filter (\<lambda>r. key r = k) (filter S tbl) \<noteq> []"
      by (auto simp: filter_empty_conv)
    with g show ?thesis by (simp add: conj_commute)
  qed
  have "merge_groups rid qty set_qty key (filter S tbl) tbl =
          foldl (collapse_group rid qty set_qty) (merged_upto rid qty set_qty key S {} tbl) (map snd ?gs)"
    by (simp add: merge_groups_def merged_upto_empty)
  also have "\<dots> = merged_upto rid qty set_qty key S ({} \<union> fst ` set ?gs) tbl"
    by (rule collapse_groups_fold [OF laws dist keys(1)]) (simp, rule grp)
  also have "\<dots> = merged rid qty set_qty key S tbl"
    unfolding merged_upto_def merged_def keys(2)
    by (rule map_filter_cong) auto
  finally show ?thesis .
qed

lemma filter_same_id:
  assumes "distinct (map rid (f # rest))"
  shows "filter (\<lambda>r. rid r = rid f) (f # rest) = [f]"
proof -
  have "rid f \<notin> rid ` set rest" using assms by simp
  then have "filter (\<lambda>r. rid r = rid f) rest = []"
    unfolding filter_empty_conv by (metis imageI)
  then show ?thesis by simp
qed

lemma merged_group:
  assumes laws: "row_laws rid qty set_qty key S"
    and dist: "distinct (map rid tbl)"
  shows "filter (\<lambda>r. S r \<and> key r = k) (merged rid qty set_qty key S tbl) =
           (case filter (\<lambda>r. S r \<and> key r = k) tbl of
              [] \<Rightarrow> []
            | f # rest \<Rightarrow> [set_qty (sum_list (map qty (f # rest))) f])"
proof -
  let ?Q = "\<lambda>r. S r \<and> key r = k"
  let ?g = "filter ?Q tbl"
  let ?F = "\<lambda>r. if S r then set_qty (sum_list (map qty (filter (\<lambda>x. S x \<and> key x = key r) tbl))) r else r"
  let ?P = "\<lambda>r. S r \<longrightarrow> rid r = rid (hd (filter (\<lambda>x. S x \<and> key x = key r) tbl))"
  have QF: "?Q (?F r) = ?Q r" for r
    using laws by (simp add: row_laws_def)
  have "filter ?Q (merged rid qty set_qty key S tbl) = map ?F (filter (\<lambda>r. ?Q r \<and> ?P r) tbl)"
    unfolding merged_def by (simp add: filter_map o_def QF conj_commute)
  also have "filter (\<lambda>r. ?Q r \<and> ?P r) tbl = filter (\<lambda>r. ?Q r \<and> rid r = rid (hd ?g)) tbl"
    by (rule filter_cong) auto
  also have "\<dots> = filter (\<lambda>r. rid r = rid (hd ?g)) ?g"
    by (simp add: conj_commute)
  finally have eq: "filter ?Q (merged rid qty set_qty key S tbl) =
      map ?F (filter (\<lambda>r. rid r = rid (hd ?g)) ?g)" .
  show ?thesis
  proof (cases ?g)
    case Nil
    with eq show ?thesis by simp
  next
    case (Cons f rest)
    have "distinct (map rid ?g)" using dist by (rule distinct_map_filter)
    then have one: "filter (\<lambda>r. rid r = rid f) (f # rest) = [f]"
      unfolding Cons by (rule filter_same_id)
    have f: "S f" "key f = k"
      using Cons filter_set [of ?Q tbl] by (metis (mono_tags, lifting) list.set_intros(1) mem_Collect_eq set_filter)+
    show ?thesis
      unfolding eq Cons using one f by (simp add: Cons)
  qed
qed

lemma merged_ids_increasing:
  assumes laws: "row_laws rid qty set_qty key S"
    and inc: "sorted_wrt (<) (map rid tbl)"
  shows "sorted_wrt (<) (map rid (merged rid qty set_qty key S tbl))"
proof -
  have rid_F: "rid (if S r then set_qty v r else r) = rid r" for r v
    using laws by (simp add: row_laws_def)
  from inc have "sorted_wrt (\<lambda>x y. rid x < rid y) tbl"
    by (simp add: sorted_wrt_map)
  then have "sorted_wrt (\<lambda>x y. rid x < rid y)
      (filter (\<lambda>r. S r \<longrightarrow> rid r = rid (hd (filter (\<lambda>x. S x \<and> key x = key r) tbl))) tbl)"
    by (rule sorted_wrt_filter)
  then show ?thesis
    unfolding merged_def by (simp add: sorted_wrt_map rid_F)
qed

lemma increasing_distinct: "sorted_wrt (<) (ids :: int list) \<Longrightarrow> distinct ids"
  by (simp add: strict_sorted_iff)

lemma merged_unselected:
  assumes laws: "row_laws rid qty set_qty key S"
  shows "filter (\<lambda>r. \<not> S r) (merged rid qty set_qty key S tbl) = filter (\<lambda>r. \<not> S r) tbl"
proof -
  have S_F: "S (if S r then set_qty v r else r) = S r" for r v
    using laws by (simp add: row_laws_def)
  have "filter (\<lambda>r. \<not> S r) (merged rid qty set_qty key S tbl) =
          map (\<lambda>r. if S r
                then set_qty (sum_list (map qty (filter (\<lambda>x. S x \<and> key x = key r) tbl))) r else r)
            (filter (\<lambda>r. \<not> S r \<and>
               (S r \<longrightarrow> rid r = rid (hd (filter (\<lambda>x. S x \<and> key x = key r) tbl)))) tbl)"
    unfolding merged_def by (simp add: filter_map o_def S_F conj_commute)
  also have "\<dots> = map (\<lambda>r. r) (filter (\<lambda>r. \<not> S r) tbl)"
    by (rule map_filter_cong) auto
  finally show ?thesis by simp
qed

lemma filter_same_key:
  "distinct (map key xs) \<Longrightarrow> r \<in> set xs \<Longrightarrow> filter (\<lambda>x. key x = key r) xs = [r]"
proof (induction xs)
  case Nil
  then show ?case by simp
next
  case (Cons a xs)
  have a: "key a \<notin> key ` set xs" using Cons.prems(1) by simp
  show ?case
  proof (cases "r = a")
    case True
    have "filter (\<lambda>x. key x = key a) xs = []"
      unfolding filter_empty_conv using a by (metis imageI)
    with True show ?thesis by simp
  next
    case False
    with Cons.prems have r: "r \<in> set xs" by simp
    with a have "key a \<noteq> key r" by (metis imageI)
    with Cons.IH r Cons.prems(1) show ?thesis by simp
  qed
qed

lemma merged_fixpoint:
  assumes laws: "row_laws rid qty set_qty key S"
    and uniq: "distinct (map key (filter S tbl))"
  shows "merged rid qty set_qty key S tbl = tbl"
proof -
  have grp: "filter (\<lambda>x. S x \<and> key x = key r) tbl = [r]" if "r \<in> set tbl" "S r" for r
  proof -
    have "filter (\<lambda>x. key x = key r) (filter S tbl) = [r]"
      by (rule filter_same_key [OF uniq]) (simp add: that)
    then show ?thesis by (simp add: conj_commute)
  qed
  have same: "set_qty (qty r) r = r" for r using laws by (simp add: row_laws_def)
  have "merged rid qty set_qty key S tbl = map (\<lambda>r. r) (filter (\<lambda>r. True) tbl)"
    unfolding merged_def
    by (rule map_filter_cong) (auto simp: grp same)
  then show ?thesis by simp
qed

lemma at_most_one_distinct:
  "(\<And>k. length (filter (\<lambda>x. key x = k) xs) \<le> 1) \<Longrightarrow> distinct (map key xs)"
proof (induction xs)
  case Nil
  show ?case by simp
next
  case (Cons a xs)
  have "length (filter (\<lambda>x. key x = k) xs) \<le> 1" for k
    using Cons.prems [of k] by (simp split: if_splits)
  then have d: "distinct (map key xs)" by (rule Cons.IH)
  have "filter (\<lambda>x. key x = key a) xs = []"
    using Cons.prems [of "key a"] by simp
  then have "key a \<notin> key ` set xs"
    unfolding filter_empty_conv by auto
  with d show ?case by simp
qed

lemma merged_keys_distinct:
  assumes laws: "row_laws rid qty set_qty key S"
    and dist: "distinct (map rid tbl)"
  shows "distinct (map key (filter S (merged rid qty set_qty key S tbl)))"
proof (rule at_most_one_distinct)
  fix k
  have "filter (\<lambda>x. key x = k) (filter S (merged rid qty set_qty key S tbl)) =
          filter (\<lambda>r. S r \<and> key r = k) (merged rid qty set_qty key S tbl)"
    by (simp add: conj_commute)
  then show "length (filter (\<lambda>x. key x = k) (filter S (merged rid qty set_qty key S tbl))) \<le> 1"
    by (simp add: merged_group [OF laws dist] split: list.splits)
qed

lemma merged_idempotent:
  assumes laws: "row_laws rid qty set_qty key S"
    and dist: "distinct (map rid tbl)"
  shows "merged rid qty set_qty key S (merged rid qty set_qty key S tbl) =
           merged rid qty set_qty key S tbl"
  by (rule merged_fixpoint [OF laws merged_keys_distinct [OF laws dist]])

lemma cart_laws: "row_laws c_id c_quantity set_c_quantity c_product_id (\<lambda>c. c_user_id c = u)"
  by (simp add: row_laws_def set_c_quantity_def)

lemma order_item_laws:
  "row_laws oi_id oi_quantity set_oi_quantity item_key (\<lambda>i. oi_order_id i = oid)"
  by (simp add: row_laws_def set_oi_quantity_def item_key_def)

lemma select_user_cart_increasing:
  assumes "sorted_wrt (<) (map c_id (cart d))"
  shows "select_user_cart d u = filter (\<lambda>c. c_user_id c = u) (cart d)"
proof -
  have "sorted (map c_id (cart d))"
    using assms by (simp add: strict_sorted_iff)
  then have "sorted (map c_id (filter (\<lambda>c. c_user_id c = u) (cart d)))"
    by (simp add: sorted_wrt_map sorted_wrt_filter)
  then show ?thesis
    unfolding select_user_cart_def by (rule sort_key_id_if_sorted)
qed

lemma merge_duplicate_cart_items_merged:
  assumes inc: "sorted_wrt (<) (map c_id (cart d))"
  shows "merge_duplicate_cart_items d u =
           d\<lparr>cart := merged c_id c_quantity set_c_quantity c_product_id (\<lambda>c. c_user_id c = u) (cart d)\<rparr>"
proof (cases "length (filter (\<lambda>c. c_user_id c = u) (cart d)) \<le> 1")
  case True
  then have "distinct (map c_product_id (filter (\<lambda>c. c_user_id c = u) (cart d)))"
    by (cases "filter (\<lambda>c. c_user_id c = u) (cart d)") auto
  then have "merged c_id c_quantity set_c_quantity c_product_id (\<lambda>c. c_user_id c = u) (cart d) = cart d"
    by (rule merged_fixpoint [OF cart_laws])
  with True show ?thesis
    by (simp add: merge_duplicate_cart_items_def select_user_cart_increasing [OF inc])
next
  case False
  then show ?thesis
    by (simp add: merge_duplicate_cart_items_def select_user_cart_increasing [OF inc]
        merge_groups_merged [OF cart_laws increasing_distinct [OF inc]])
qed

lemma merge_duplicate_order_items_merged:
  assumes dist: "distinct (map oi_id (order_items d))"
  shows "merge_duplicate_order_items d oid =
           d\<lparr>order_items := merged oi_id oi_quantity set_oi_quantity item_key
               (\<lambda>i. oi_order_id i = oid) (order_items d)\<rparr>"
  by (simp add: merge_duplicate_order_items_def merge_groups_merged [OF order_item_laws dist])

section \<open>Merging duplicate line items\<close>

lemma merged_order_items_merged:
  "merged_order_items tbl oid =
     merged oi_id oi_quantity set_oi_quantity item_key (\<lambda>i. oi_order_id i = oid) tbl"
  by (simp add: merged_order_items_def merged_def lines_with_key_def set_oi_quantity_def)

text \<open>
  Claim C7. On a table stored in increasing id order, \<^verbatim>\<open>merge_duplicate_order_items\<close>
  leaves exactly the table \<open>merged_order_items\<close>: for each (product, price_at_order)
  of the order the first line item stays with the sum of the group's quantities and the
  others are deleted, and other orders' items are untouched. Afterwards no two line
  items of the order share a key, the quantity per key is what it was, each line item
  that stayed has the lowest id of its group, and a second run changes nothing.
\<close>

theorem merge_duplicate_order_items_collapses:
  assumes inc: "sorted_wrt (<) (map oi_id (order_items d))"
  shows "merge_duplicate_order_items d oid = d\<lparr>order_items := merged_order_items (order_items d) oid\<rparr>
    \<and> distinct (map item_key (order_lines (order_items (merge_duplicate_order_items d oid)) oid))
    \<and> (\<forall>k. sum_list (map oi_quantity (lines_with_key (order_items (merge_duplicate_order_items d oid)) oid k))
            = sum_list (map oi_quantity (lines_with_key (order_items d) oid k)))
    \<and> (\<forall>i \<in> set (order_lines (order_items (merge_duplicate_order_items d oid)) oid).
          \<forall>j \<in> set (lines_with_key (order_items d) oid (item_key i)). oi_id i \<le> oi_id j)
    \<and> merge_duplicate_order_items (merge_duplicate_order_items d oid) oid
          = merge_duplicate_order_items d oid"
proof -
  let ?S = "\<lambda>i. oi_order_id i = oid"
  let ?tbl = "order_items d"
  let ?M = "merged oi_id oi_quantity set_oi_quantity item_key ?S ?tbl"
  note laws = order_item_laws [of oid]
  have dist: "distinct (map oi_id ?tbl)" using inc by (rule increasing_distinct)
  have m: "merge_duplicate_order_items d oid = d\<lparr>order_items := ?M\<rparr>"
    by (rule merge_duplicate_order_items_merged [OF dist])
  have grp: "lines_with_key ?M oid k =
      (case lines_with_key ?tbl oid k of [] \<Rightarrow> []
       | f # rest \<Rightarrow> [set_oi_quantity (sum_list (map oi_quantity (f # rest))) f])" for k
    unfolding lines_with_key_def by (rule merged_group [OF laws dist])
  have A: "merge_duplicate_order_items d oid = d\<lparr>order_items := merged_order_items ?tbl oid\<rparr>"
    by (simp add: m merged_order_items_merged)
  have B: "distinct (map item_key (order_lines (order_items (merge_duplicate_order_items d oid)) oid))"
    unfolding m order_lines_def using merged_keys_distinct [OF laws dist] by simp
  have C: "sum_list (map oi_quantity (lines_with_key (order_items (merge_duplicate_order_items d oid)) oid k))
            = sum_list (map oi_quantity (lines_with_key ?tbl oid k))" for k
    by (simp add: m grp set_oi_quantity_def split: list.splits)
  have E: "oi_id i \<le> oi_id j"
    if i: "i \<in> set (order_lines (order_items (merge_duplicate_order_items d oid)) oid)"
      and j: "j \<in> set (lines_with_key ?tbl oid (item_key i))" for i j
  proof -
    from i have mem: "i \<in> set (lines_with_key ?M oid (item_key i))"
      by (simp add: m order_lines_def lines_with_key_def)
    show ?thesis
    proof (cases "lines_with_key ?tbl oid (item_key i)")
      case Nil
      with j show ?thesis by simp
    next
      case (Cons f rest)
      from mem have "oi_id i = oi_id f"
        by (simp add: grp Cons set_oi_quantity_def)
      moreover have "sorted_wrt (\<lambda>x y. oi_id x < oi_id y) (lines_with_key ?tbl oid (item_key i))"
        unfolding lines_with_key_def using inc by (simp add: sorted_wrt_map sorted_wrt_filter)
      then have "\<forall>x \<in> set rest. oi_id f < oi_id x" by (simp add: Cons)
      moreover have "j = f \<or> j \<in> set rest" using j by (simp add: Cons)
      ultimately show ?thesis by auto
    qed
  qed
  have dist': "distinct (map oi_id ?M)"
    by (rule increasing_distinct [OF merged_ids_increasing [OF laws inc]])
  have D: "merge_duplicate_order_items (merge_duplicate_order_items d oid) oid
          = merge_duplicate_order_items d oid"
    using merge_duplicate_order_items_merged [of "d\<lparr>order_items := ?M\<rparr>" oid] dist'
    by (simp add: m merged_idempotent [OF laws dist])
  from A B C D E show ?thesis by blast
qed

theorem merge_duplicate_order_items_collapses_witness:
  "sorted_wrt (<) (map oi_id (order_items shop7))
   \<and> order_items (merge_duplicate_order_items shop7 7) =
       [\<lparr>oi_id = 1, oi_order_id = 7, oi_product_id = 1, oi_quantity = 7, price_at_order = 10\<rparr>,
        \<lparr>oi_id = 2, oi_order_id = 7, oi_product_id = 2, oi_quantity = 1, price_at_order = 8\<rparr>,
        \<lparr>oi_id = 3, oi_order_id = 8, oi_product_id = 1, oi_quantity = 2, price_at_order = 10\<rparr>,
        \<lparr>oi_id = 5, oi_order_id = 7, oi_product_id = 1, oi_quantity = 1, price_at_order = 12\<rparr>]"
proof -
  have inc: "sorted_wrt (<) (map oi_id (order_items shop7))"
    by (simp add: shop7_def)
  from merge_duplicate_order_items_collapses [OF inc, of 7]
  have "merge_duplicate_order_items shop7 7 =
          shop7\<lparr>order_items := merged_order_items (order_items shop7) 7\<rparr>"
    by simp
  then show ?thesis
    using inc by (simp add: shop7_def merged_order_items_def lines_with_key_def item_key_def)
qed

section \<open>The cart\<close>

lemma next_id_greater: "i \<in> set ids \<Longrightarrow> i < next_id ids"
proof -
  have "i \<in> set ids \<Longrightarrow> i \<le> foldr max ids 0"
    by (induction ids) auto
  then show "i \<in> set ids \<Longrightarrow> i < next_id ids"
    by (simp add: next_id_def)
qed

lemma increasing_snoc:
  "sorted_wrt (<) ids \<Longrightarrow> sorted_wrt (<) (ids @ [next_id ids])"
  by (simp add: sorted_wrt_append next_id_greater)

lemma set_quantity_by_id_ids:
  assumes "\<And>v r. rid (set_qty v r) = rid r"
  shows "map rid (set_quantity_by_id rid set_qty i v tbl) = map rid tbl"
  using assms by (simp add: set_quantity_by_id_def)

lemma filter_set_quantity_by_id:
  assumes "\<And>v r. Q (set_qty v r) = Q r"
  shows "filter Q (set_quantity_by_id rid set_qty i v tbl) =
           set_quantity_by_id rid set_qty i v (filter Q tbl)"
  using assms by (induction tbl) (auto simp: set_quantity_by_id_def)

lemma add_to_cart_step:
  assumes inc: "sorted_wrt (<) (map c_id (cart d))"
  shows "\<exists>d' row. add_to_cart d u p q = Inr (d', row)
           \<and> sorted_wrt (<) (map c_id (cart d'))
           \<and> cart_rows (cart d') u p = [row]
           \<and> c_quantity row = sum_list (map c_quantity (cart_rows (cart d) u p)) + q
           \<and> one_row_per_product (cart d') u"
proof -
  let ?S = "\<lambda>c. c_user_id c = u"
  let ?M = "merged c_id c_quantity set_c_quantity c_product_id ?S (cart d)"
  note laws = cart_laws [of u]
  have dist: "distinct (map c_id (cart d))" using inc by (rule increasing_distinct)
  have m: "merge_duplicate_cart_items d u = d\<lparr>cart := ?M\<rparr>"
    by (rule merge_duplicate_cart_items_merged [OF inc])
  have incM: "sorted_wrt (<) (map c_id ?M)"
    by (rule merged_ids_increasing [OF laws inc])
  have uniqM: "distinct (map c_product_id (filter ?S ?M))"
    by (rule merged_keys_distinct [OF laws dist])
  have grp: "cart_rows ?M u p =
      (case cart_rows (cart d) u p of [] \<Rightarrow> []
       | f # rest \<Rightarrow> [set_c_quantity (sum_list (map c_quantity (f # rest))) f])"
    unfolding cart_rows_def by (rule merged_group [OF laws dist])
  show ?thesis
  proof (cases "cart_rows (cart d) u p")
    case Nil
    let ?new = "\<lparr>c_id = next_id (map c_id ?M), c_user_id = u, c_product_id = p, c_quantity = q\<rparr>"
    have none: "cart_rows ?M u p = []" by (simp add: grp Nil)
    then have add: "add_to_cart d u p q = Inr (d\<lparr>cart := ?M @ [?new]\<rparr>, ?new)"
      by (simp add: add_to_cart_def m cart_rows_def Let_def)
    have "p \<notin> c_product_id ` set (filter ?S ?M)"
    proof
      assume "p \<in> c_product_id ` set (filter ?S ?M)"
      then obtain c where "c \<in> set ?M" "c_user_id c = u" "c_product_id c = p" by auto
      then have "c \<in> set (cart_rows ?M u p)" by (simp add: cart_rows_def)
      with none show False by simp
    qed
    with uniqM have "one_row_per_product (?M @ [?new]) u"
      by (simp add: one_row_per_product_def)
    moreover have "sorted_wrt (<) (map c_id (?M @ [?new]))"
      using increasing_snoc [OF incM] by simp
    moreover have "cart_rows (?M @ [?new]) u p = [?new]"
      using none by (simp add: cart_rows_def)
    ultimately show ?thesis
      by (simp add: add Nil)
  next
    case (Cons f rest)
    let ?f' = "set_c_quantity (sum_list (map c_quantity (f # rest))) f"
    let ?T = "set_quantity_by_id c_id set_c_quantity (c_id ?f') (c_quantity ?f' + q) ?M"
    let ?row = "?f'\<lparr>c_quantity := c_quantity ?f' + q\<rparr>"
    have one: "cart_rows ?M u p = [?f']" by (simp add: grp Cons)
    then have add: "add_to_cart d u p q = Inr (d\<lparr>cart := ?T\<rparr>, ?row)"
      by (simp add: add_to_cart_def m cart_rows_def Let_def)
    have ids: "map c_id ?T = map c_id ?M"
      by (rule set_quantity_by_id_ids) (simp add: set_c_quantity_def)
    have "filter ?S ?T = set_quantity_by_id c_id set_c_quantity (c_id ?f') (c_quantity ?f' + q) (filter ?S ?M)"
      by (rule filter_set_quantity_by_id) (simp add: set_c_quantity_def)
    then have "map c_product_id (filter ?S ?T) = map c_product_id (filter ?S ?M)"
      by (simp add: set_quantity_by_id_def set_c_quantity_def o_def if_distrib cong: if_cong)
    with uniqM have "one_row_per_product ?T u"
      by (simp add: one_row_per_product_def)
    moreover have "cart_rows ?T u p = [?row]"
    proof -
      have "cart_rows ?T u p =
              set_quantity_by_id c_id set_c_quantity (c_id ?f') (c_quantity ?f' + q) (cart_rows ?M u p)"
        unfolding cart_rows_def
        by (rule filter_set_quantity_by_id) (simp add: set_c_quantity_def)
      then show ?thesis
        by (simp add: one set_quantity_by_id_def set_c_quantity_def)
    qed
    moreover have "sorted_wrt (<) (map c_id ?T)" unfolding ids by (rule incM)
    moreover have "c_quantity ?row = sum_list (map c_quantity (f # rest)) + q"
      by (simp add: set_c_quantity_def)
    ultimately show ?thesis
      by (simp add: add Cons)
  qed
qed

lemma add_all_to_cart_aux:
  assumes "sorted_wrt (<) (map c_id (cart d))"
  shows "\<exists>d' row. add_all_to_cart d u p (q # qs) = Inr d'
           \<and> cart_rows (cart d') u p = [row]
           \<and> c_quantity row = sum_list (map c_quantity (cart_rows (cart d) u p)) + q + sum_list qs"
  using assms
proof (induction qs arbitrary: d q)
  case Nil
  from add_to_cart_step [OF Nil, of u p q] show ?case by auto
next
  case (Cons q' qs)
  from add_to_cart_step [OF Cons.prems, of u p q]
  obtain d1 row1 where s: "add_to_cart d u p q = Inr (d1, row1)"
      "sorted_wrt (<) (map c_id (cart d1))" "cart_rows (cart d1) u p = [row1]"
      "c_quantity row1 = sum_list (map c_quantity (cart_rows (cart d) u p)) + q"
    by blast
  from Cons.IH [OF s(2), of q']
  obtain d' row where r: "add_all_to_cart d1 u p (q' # qs) = Inr d'"
      "cart_rows (cart d') u p = [row]"
      "c_quantity row = sum_list (map c_quantity (cart_rows (cart d1) u p)) + q' + sum_list qs"
    by blast
  have "add_all_to_cart d u p (q # q' # qs) = Inr d'"
    using s(1) r(1) by simp
  moreover have "c_quantity row =
      sum_list (map c_quantity (cart_rows (cart d) u p)) + q + sum_list (q' # qs)"
    using r(3) s(3,4) by simp
  ultimately show ?case using r(2) by blast
qed

text \<open>
  Claim C2. Starting from any cart table (stored in increasing id order, duplicates
  allowed), a non-empty run of \<^verbatim>\<open>add_to_cart\<close> calls for one user and product raises
  nothing and leaves exactly one row for that user and product; its quantity is the
  sum of the quantities added plus the quantities of the rows that were there before.
\<close>

theorem add_to_cart_one_row_with_sum:
  assumes "sorted_wrt (<) (map c_id (cart d))" and "qs \<noteq> []"
  shows "\<exists>d' row. add_all_to_cart d u p qs = Inr d'
           \<and> cart_rows (cart d') u p = [row]
           \<and> c_quantity row = sum_list (map c_quantity (cart_rows (cart d) u p)) + sum_list qs"
proof -
  from assms(2) obtain q qs' where qs: "qs = q # qs'" by (cases qs) auto
  from add_all_to_cart_aux [OF assms(1), of u p q qs'] show ?thesis
    by (simp add: qs add.assoc)
qed

theorem add_to_cart_one_row_with_sum_witness:
  "sorted_wrt (<) (map c_id (cart dup_cart)) \<and> [3, 3] \<noteq> ([] :: int list)
   \<and> (\<exists>d' row. add_all_to_cart dup_cart 7 1 [3, 3] = Inr d'
          \<and> cart_rows (cart d') 7 1 = [row] \<and> c_quantity row = 12)"
  using add_to_cart_one_row_with_sum [of dup_cart "[3, 3]" 7 1]
  by (simp add: dup_cart_def shop0_def cart_rows_def)






section \<open>The loops of create_order\<close>

lemma update_stock_products:
  "products (update_stock d pid q) =
     (case products d pid of
        None \<Rightarrow> products d
      | Some p \<Rightarrow> (products d)(pid \<mapsto> p\<lparr>stock_quantity := max 0 (stock_quantity p + q)\<rparr>))"
  by (simp add: update_stock_product update_stock_absent split: option.splits)

lemma update_stock_frame:
  "models (update_stock d pid q) = models d" "cart (update_stock d pid q) = cart d"
  "orders (update_stock d pid q) = orders d" "order_items (update_stock d pid q) = order_items d"
  by (cases "products d pid"; simp add: update_stock_product update_stock_absent)+

lemma update_stock_only_products:
  "update_stock d pid q = d\<lparr>products := products (update_stock d pid q)\<rparr>"
  by (cases "products d pid") (simp_all add: update_stock_product update_stock_absent)

lemma accepted_cong: "products d1 = products d2 \<Longrightarrow> accepted d1 e = accepted d2 e"
  by (simp add: accepted_def get_product_by_id_def)

lemma update_stock_cong:
  "products d1 = products d2 \<Longrightarrow> products (update_stock d1 pid q) = products (update_stock d2 pid q)"
  by (simp add: update_stock_products split: option.splits)

lemma accepted_entries_step:
  "accepted_entries d (e # es) =
     (if accepted d e
      then (e, the (products d (c_product_id e)))
             # accepted_entries (update_stock d (c_product_id e) (- c_quantity e)) es
      else accepted_entries d es)"
  by (simp add: accepted_def get_product_by_id_def split: option.splits)

declare accepted_entries.simps(2) [simp del]

lemma accepted_entries_cong:
  "products d1 = products d2 \<Longrightarrow> accepted_entries d1 es = accepted_entries d2 es"
proof (induction es arbitrary: d1 d2)
  case Nil
  show ?case by simp
next
  case (Cons e es)
  have "accepted_entries (update_stock d1 (c_product_id e) (- c_quantity e)) es =
        accepted_entries (update_stock d2 (c_product_id e) (- c_quantity e)) es"
    by (rule Cons.IH) (rule update_stock_cong [OF Cons.prems])
  moreover have "accepted_entries d1 es = accepted_entries d2 es"
    by (rule Cons.IH) (rule Cons.prems)
  ultimately show ?case
    unfolding accepted_entries_step using Cons.prems accepted_cong [OF Cons.prems, of e] by simp
qed

lemma after_entries_cong:
  "products d1 = products d2 \<Longrightarrow> products (after_entries d1 es) = products (after_entries d2 es)"
proof (induction es arbitrary: d1 d2)
  case Nil
  then show ?case by simp
next
  case (Cons e es)
  show ?case
    unfolding after_entries.simps
    by (rule Cons.IH) (simp add: accepted_cong [OF Cons.prems] update_stock_cong [OF Cons.prems] Cons.prems)
qed

lemma collect_item_step:
  "collect_item (d, t, l) e =
     (if accepted d e
      then (update_stock d (c_product_id e) (- c_quantity e),
            t + line_price (e, the (products d (c_product_id e))),
            l @ [(c_product_id e, c_quantity e, price (the (products d (c_product_id e))))])
      else (d, t, l))"
  by (simp add: collect_item_def accepted_def get_product_by_id_def line_price_def Let_def
      split: option.splits)

lemma collect_loop:
  "foldl collect_item (d, t, l) es =
     (after_entries d es,
      t + sum_list (map line_price (accepted_entries d es)),
      l @ map (\<lambda>a. (c_product_id (fst a), c_quantity (fst a), price (snd a))) (accepted_entries d es))"
proof (induction es arbitrary: d t l)
  case Nil
  show ?case by simp
next
  case (Cons e es)
  show ?case
    by (simp only: foldl_Cons collect_item_step accepted_entries_step after_entries.simps
          Cons.IH split: if_splits)
       (simp add: add.assoc)
qed

lemma after_entries_frame:
  "models (after_entries d es) = models d" "cart (after_entries d es) = cart d"
  "orders (after_entries d es) = orders d" "order_items (after_entries d es) = order_items d"
  by (induction es arbitrary: d) (simp_all add: update_stock_frame)

lemma after_entries_stock:
  "products (after_entries d es) pid =
     map_option (\<lambda>p. p\<lparr>stock_quantity := stock_quantity p - taken d es pid\<rparr>) (products d pid)"
proof (induction es arbitrary: d)
  case Nil
  show ?case by (cases "products d pid") (simp_all add: taken_def)
next
  case (Cons e es)
  show ?case
  proof (cases "accepted d e")
    case False
    then show ?thesis
      using Cons.IH [of d] by (simp add: taken_def accepted_entries_step)
  next
    case True
    let ?p = "c_product_id e" and ?q = "c_quantity e"
    let ?d1 = "update_stock d ?p (- ?q)"
    from True obtain pr where pr: "products d ?p = Some pr" "?q \<le> stock_quantity pr"
      by (auto simp: accepted_def get_product_by_id_def split: option.splits)
    have d1: "products ?d1 = (products d)(?p \<mapsto> pr\<lparr>stock_quantity := stock_quantity pr - ?q\<rparr>)"
      using pr by (simp add: update_stock_products max_def)
    have tk: "taken d (e # es) pid = (if ?p = pid then ?q else 0) + taken ?d1 es pid"
      using True by (simp add: taken_def accepted_entries_step)
    have "products (after_entries d (e # es)) pid = products (after_entries ?d1 es) pid"
      using True by simp
    also have "\<dots> = map_option (\<lambda>p. p\<lparr>stock_quantity := stock_quantity p - taken ?d1 es pid\<rparr>)
                        (products ?d1 pid)"
      by (rule Cons.IH)
    also have "\<dots> = map_option (\<lambda>p. p\<lparr>stock_quantity := stock_quantity p - taken d (e # es) pid\<rparr>)
                        (products d pid)"
      using pr d1 tk by (cases "?p = pid") (simp_all add: diff_diff_eq)
    finally show ?thesis .
  qed
qed




section \<open>Creating an order\<close>


lemma scenario_a_accepted:
  "accepted_entries scenario_a cart_a =
      [(\<lparr>c_id = 1, c_user_id = 7, c_product_id = 1, c_quantity = 3\<rparr>,
        \<lparr>model_id = 1, flavor_name = ''X'', price = 10, stock_quantity = 5, is_available = True\<rparr>),
       (\<lparr>c_id = 2, c_user_id = 7, c_product_id = 2, c_quantity = 1\<rparr>,
        \<lparr>model_id = 1, flavor_name = ''Y'', price = 8, stock_quantity = 4, is_available = True\<rparr>)]"
    by (simp add: cart_a_def scenario_a_def shop0_def accepted_entries_step accepted_def
        get_product_by_id_def update_stock_products)


section \<open>Skipped cart entries\<close>

lemma amend_item_rejected: "\<not> accepted d e \<Longrightarrow> amend_item oid (d, t) e = (d, t)"
  by (auto simp: amend_item_def accepted_def split: option.splits)

lemma collect_item_rejected: "\<not> accepted d e \<Longrightarrow> collect_item (d, t, l) e = (d, t, l)"
  by (simp add: collect_item_step)

lemma foldl_skip:
  assumes "f (foldl f s xs) e = foldl f s xs"
  shows "foldl f s (xs @ e # ys) = foldl f s (xs @ ys)"
  using assms by simp

text \<open>
  Claim C5. Take the database as the loop of \<^verbatim>\<open>create_order\<close> has left it after the cart
  entries \<open>xs\<close>. If there the product of the next entry \<open>e\<close> is missing, or unavailable,
  or has less stock than the entry asks, then the entry has no effect at all:
  \<^verbatim>\<open>create_order\<close> returns the same order and leaves the same database (line items,
  stock, total) as for the cart without \<open>e\<close>, on the create path and on the amend path.
  \<^verbatim>\<open>create_order\<close> has no error result.
\<close>

theorem rejected_entry_is_skipped:
  assumes "products (loop_state d u xs) (c_product_id e) = None
         \<or> (\<exists>p. products (loop_state d u xs) (c_product_id e) = Some p
                \<and> (\<not> is_available p \<or> stock_quantity p < c_quantity e))"
  shows "create_order d u (xs @ e # ys) contact delivery fee now =
           create_order d u (xs @ ys) contact delivery fee now
       \<and> loop_state d u (xs @ [e]) = loop_state d u xs"
proof -
  have rej: "\<not> accepted (loop_state d u xs) e"
    using assms by (auto simp: accepted_def get_product_by_id_def)
  show ?thesis
  proof (cases "find_processing_order d u")
    case None
    obtain s t l where st: "foldl collect_item (d, 0, []) xs = (s, t, l)"
      by (cases "foldl collect_item (d, 0, []) xs")
    have "\<not> accepted s e" using rej by (simp add: loop_state_def None st)
    then have skip: "collect_item (foldl collect_item (d, 0, []) xs) e = foldl collect_item (d, 0, []) xs"
      by (simp add: st collect_item_rejected)
    then have "foldl collect_item (d, 0, []) (xs @ e # ys) = foldl collect_item (d, 0, []) (xs @ ys)"
      by (rule foldl_skip)
    then show ?thesis
      using skip by (simp add: create_order_def loop_state_def None)
  next
    case (Some ex)
    obtain s t where st: "foldl (amend_item (o_id ex)) (d, 0) xs = (s, t)"
      by (cases "foldl (amend_item (o_id ex)) (d, 0) xs")
    have "\<not> accepted s e" using rej by (simp add: loop_state_def Some st)
    then have skip: "amend_item (o_id ex) (foldl (amend_item (o_id ex)) (d, 0) xs) e
        = foldl (amend_item (o_id ex)) (d, 0) xs"
      by (simp add: st amend_item_rejected)
    then have "foldl (amend_item (o_id ex)) (d, 0) (xs @ e # ys)
        = foldl (amend_item (o_id ex)) (d, 0) (xs @ ys)"
      by (rule foldl_skip)
    then show ?thesis
      using skip by (simp add: create_order_def loop_state_def Some)
  qed
qed

theorem rejected_entry_is_skipped_witness:
  "map_option stock_quantity (products (loop_state scenario_a 7 cart_a) 3) = Some 0
   \<and> c_quantity entry_z = 1
   \<and> create_order scenario_a 7 (cart_a @ [entry_z]) None ''pickup'' 0 100 =
       create_order scenario_a 7 cart_a None ''pickup'' 0 100"
proof -
  have none: "find_processing_order scenario_a 7 = None"
    by (simp add: find_processing_order_def scenario_a_def shop0_def)
  have p3: "products scenario_a 3 =
      Some \<lparr>model_id = 1, flavor_name = ''Z'', price = 5, stock_quantity = 0, is_available = True\<rparr>"
    by (simp add: scenario_a_def shop0_def)
  have st: "products (loop_state scenario_a 7 cart_a) 3 =
      Some \<lparr>model_id = 1, flavor_name = ''Z'', price = 5, stock_quantity = 0, is_available = True\<rparr>"
    by (simp add: loop_state_def none collect_loop after_entries_stock taken_def
        scenario_a_accepted p3)
  have hyp: "products (loop_state scenario_a 7 cart_a) (c_product_id entry_z) = None
         \<or> (\<exists>p. products (loop_state scenario_a 7 cart_a) (c_product_id entry_z) = Some p
                \<and> (\<not> is_available p \<or> stock_quantity p < c_quantity entry_z))"
    by (simp add: st entry_z_def)
  from rejected_entry_is_skipped [OF hyp, of "[]" None "''pickup''" 0 100]
  show ?thesis by (simp add: st entry_z_def)
qed

section \<open>Amending the order in process\<close>

lemma amend_item_accepted:
  assumes "accepted d e"
  shows "\<exists>tbl. amend_item oid (d, t) e =
           (update_stock (d\<lparr>order_items := tbl\<rparr>) (c_product_id e) (- c_quantity e),
            t + line_price (e, the (products d (c_product_id e))))"
  using assms
  by (auto simp: amend_item_def accepted_def get_product_by_id_def line_price_def Let_def
      split: option.splits list.splits)

lemma amend_loop:
  "\<exists>d1. foldl (amend_item oid) (d, t) es =
           (d1, t + sum_list (map line_price (accepted_entries d es)))
        \<and> products d1 = products (after_entries d es)
        \<and> models d1 = models d \<and> cart d1 = cart d \<and> orders d1 = orders d"
proof (induction es arbitrary: d t)
  case Nil
  show ?case by simp
next
  case (Cons e es)
  show ?case
  proof (cases "accepted d e")
    case False
    with Cons.IH [of d t] show ?thesis
      by (simp add: amend_item_rejected accepted_entries_step)
  next
    case True
    let ?u = "update_stock d (c_product_id e) (- c_quantity e)"
    let ?t = "t + line_price (e, the (products d (c_product_id e)))"
    from amend_item_accepted [OF True, of oid t]
    obtain tbl where step: "amend_item oid (d, t) e =
        (update_stock (d\<lparr>order_items := tbl\<rparr>) (c_product_id e) (- c_quantity e), ?t)"
      by blast
    let ?d' = "update_stock (d\<lparr>order_items := tbl\<rparr>) (c_product_id e) (- c_quantity e)"
    have pr: "products ?d' = products ?u"
      by (rule update_stock_cong) simp
    from Cons.IH [of ?d' ?t]
    obtain d1 where d1: "foldl (amend_item oid) (?d', ?t) es =
          (d1, ?t + sum_list (map line_price (accepted_entries ?d' es)))"
        "products d1 = products (after_entries ?d' es)"
        "models d1 = models ?d'" "cart d1 = cart ?d'" "orders d1 = orders ?d'"
      by blast
    have "foldl (amend_item oid) (d, t) (e # es) =
        (d1, t + sum_list (map line_price (accepted_entries d (e # es))))"
      using True by (simp add: step d1(1) accepted_entries_step accepted_entries_cong [OF pr] add.assoc)
    moreover have "products d1 = products (after_entries d (e # es))"
      using True by (simp add: d1(2) after_entries_cong [OF pr])
    moreover have "models d1 = models d" "cart d1 = cart d" "orders d1 = orders d"
      by (simp_all add: d1 update_stock_frame)
    ultimately show ?thesis by blast
  qed
qed



lemma find_processing_order_Some:
  assumes "find_processing_order d u = Some ex"
  shows "ex \<in> set (processing_orders (orders d) u)"
proof -
  let ?xs = "sort_key (\<lambda>ord. - created_at ord) (processing_orders (orders d) u)"
  from assms obtain rest where "?xs = ex # rest"
    by (auto simp: find_processing_order_def processing_orders_def split: list.splits)
  then have "ex \<in> set ?xs" by simp
  then show ?thesis by simp
qed


lemma create_order_amend:
  assumes "find_processing_order d u = Some ex"
  shows "\<exists>d1. create_order d u es contact delivery fee now =
      (clear_user_cart
         (d1\<lparr>orders := map (\<lambda>r. if o_id r = o_id ex
              then r\<lparr>total_price := total_price ex + sum_list (map line_price (accepted_entries d es))\<rparr>
              else r) (orders d)\<rparr>) u,
       ex\<lparr>total_price := total_price ex + sum_list (map line_price (accepted_entries d es))\<rparr>)
     \<and> d1 = fst (foldl (amend_item (o_id ex)) (d, 0) es)
     \<and> products d1 = products (after_entries d es)
     \<and> models d1 = models d \<and> cart d1 = cart d"
proof -
  from amend_loop [of "o_id ex" d 0 es]
  obtain d1 where d1: "foldl (amend_item (o_id ex)) (d, 0) es =
        (d1, 0 + sum_list (map line_price (accepted_entries d es)))"
      "products d1 = products (after_entries d es)"
      "models d1 = models d" "cart d1 = cart d" "orders d1 = orders d"
    by blast
  show ?thesis
    by (rule exI [of _ d1]) (simp add: create_order_def assms d1 Let_def)
qed





section \<open>Deleting an order\<close>

text \<open>
  Claim C4 fails on the code. \<^verbatim>\<open>delete_order\<close> on Scenario D returns \<^verbatim>\<open>True\<close>, gives
  the quantities 5 and 1 back to the stock of X and Y and deletes order 7, but both
  line items of order 7 are still in \<^verbatim>\<open>order_items\<close>.
\<close>

theorem delete_order_leaves_line_items:
  "snd (delete_order scenario_d 7) = True
   \<and> orders (fst (delete_order scenario_d 7)) = []
   \<and> map_option stock_quantity (products (fst (delete_order scenario_d 7)) 1) = Some 10
   \<and> map_option stock_quantity (products (fst (delete_order scenario_d 7)) 2) = Some 5
   \<and> order_items (fst (delete_order scenario_d 7)) =
       [\<lparr>oi_id = 1, oi_order_id = 7, oi_product_id = 1, oi_quantity = 5, price_at_order = 10\<rparr>,
        \<lparr>oi_id = 2, oi_order_id = 7, oi_product_id = 2, oi_quantity = 1, price_at_order = 8\<rparr>]"
  by (simp add: delete_order_def get_order_by_id_def scenario_d_def shop0_def Let_def
      update_stock_products update_stock_frame)

lemma delete_order_keeps_order_items: "order_items (fst (delete_order d oid)) = order_items d"
proof -
  have loop: "order_items (foldl (\<lambda>s item. update_stock s (oi_product_id item) (oi_quantity item)) s items)
      = order_items s" for s items
    by (induction items arbitrary: s) (simp_all add: update_stock_frame)
  show ?thesis
    by (simp add: delete_order_def Let_def loop split: option.splits)
qed

lemma delete_order_absent:
  "get_order_by_id d oid = None \<Longrightarrow> delete_order d oid = (d, False)"
  by (simp add: delete_order_def)

section \<open>One order in process\<close>













section \<open>The tables stay in id order\<close>

text \<open>
  Several properties above are stated for tables stored in increasing id order. Every
  operation keeps that order, so it holds in every state the operations reach from
  empty \<^verbatim>\<open>cart\<close> and \<^verbatim>\<open>order_items\<close> tables.
\<close>

lemma delete_by_ids_increasing:
  "sorted_wrt (<) (map rid tbl) \<Longrightarrow> sorted_wrt (<) (map rid (delete_by_ids rid ids tbl))"
  by (simp add: delete_by_ids_def sorted_wrt_map sorted_wrt_filter)

lemma filter_increasing:
  "sorted_wrt (<) (map rid tbl) \<Longrightarrow> sorted_wrt (<) (map rid (filter P tbl))"
  by (simp add: sorted_wrt_map sorted_wrt_filter)

lemma amend_item_id_order:
  assumes "sorted_wrt (<) (map oi_id (order_items d))"
  shows "sorted_wrt (<) (map oi_id (order_items (fst (amend_item oid (d, t) e))))"
proof (cases "accepted d e")
  case False
  with assms show ?thesis by (simp add: amend_item_rejected)
next
  case True
  then obtain p where p: "products d (c_product_id e) = Some p" "is_available p"
      "c_quantity e \<le> stock_quantity p"
    by (auto simp: accepted_def get_product_by_id_def split: option.splits)
  let ?ex = "filter (\<lambda>i. oi_order_id i = oid \<and> oi_product_id i = c_product_id e
                        \<and> price_at_order i = price p) (order_items d)"
  show ?thesis
  proof (cases ?ex)
    case Nil
    have "order_items (fst (amend_item oid (d, t) e)) = order_items d @
        [\<lparr>oi_id = next_id (map oi_id (order_items d)), oi_order_id = oid,
          oi_product_id = c_product_id e, oi_quantity = c_quantity e, price_at_order = price p\<rparr>]"
      using p by (simp add: amend_item_def get_product_by_id_def Nil Let_def update_stock_frame)
    then show ?thesis using increasing_snoc [OF assms] by simp
  next
    case (Cons f dups)
    let ?T = "set_quantity_by_id oi_id set_oi_quantity (oi_id f) (oi_quantity f + c_quantity e)
                (order_items d)"
    have res: "order_items (fst (amend_item oid (d, t) e)) = delete_by_ids oi_id (map oi_id dups) ?T"
      using p by (simp add: amend_item_def get_product_by_id_def Cons Let_def update_stock_frame)
    have "map oi_id ?T = map oi_id (order_items d)"
      by (rule set_quantity_by_id_ids) (simp add: set_oi_quantity_def)
    then have "sorted_wrt (<) (map oi_id ?T)" using assms by simp
    then show ?thesis unfolding res by (rule delete_by_ids_increasing)
  qed
qed

lemma amend_loop_id_order:
  "sorted_wrt (<) (map oi_id (order_items d)) \<Longrightarrow>
   sorted_wrt (<) (map oi_id (order_items (fst (foldl (amend_item oid) (d, t) es))))"
proof (induction es arbitrary: d t)
  case Nil
  then show ?case by simp
next
  case (Cons e es)
  obtain d1 t1 where step: "amend_item oid (d, t) e = (d1, t1)"
    by (cases "amend_item oid (d, t) e")
  have "sorted_wrt (<) (map oi_id (order_items d1))"
    using amend_item_id_order [OF Cons.prems, of oid t e] by (simp add: step)
  from Cons.IH [OF this, of t1] show ?case by (simp add: step)
qed

lemma insert_order_items_id_order:
  "sorted_wrt (<) (map oi_id tbl) \<Longrightarrow>
   sorted_wrt (<) (map oi_id (foldl (insert_order_item oid) tbl specs))"
proof (induction specs arbitrary: tbl)
  case Nil
  then show ?case by simp
next
  case (Cons s specs)
  obtain pid q pr where s: "s = (pid, q, pr)" by (cases s)
  show ?case
    using Cons.IH [of "insert_order_item oid tbl s"] increasing_snoc [OF Cons.prems]
    by (simp add: s insert_order_item_def)
qed

lemma create_order_id_order:
  assumes "id_order d"
  shows "id_order (fst (create_order d u es contact delivery fee now))"
proof (cases "find_processing_order d u")
  case None
  have loop: "foldl collect_item (d, 0, []) es =
      (after_entries d es, sum_list (map line_price (accepted_entries d es)),
       map (\<lambda>a. (c_product_id (fst a), c_quantity (fst a), price (snd a))) (accepted_entries d es))"
    by (simp add: collect_loop)
  show ?thesis
    using assms insert_order_items_id_order [of "order_items d"]
    by (simp add: create_order_def None loop Let_def id_order_def clear_user_cart_def
        after_entries_frame filter_increasing)
next
  case (Some ex)
  from create_order_amend [OF Some, of es contact delivery fee now]
  obtain d1 where r: "create_order d u es contact delivery fee now =
        (clear_user_cart
           (d1\<lparr>orders := map (\<lambda>r. if o_id r = o_id ex
                then r\<lparr>total_price := total_price ex + sum_list (map line_price (accepted_entries d es))\<rparr>
                else r) (orders d)\<rparr>) u,
         ex\<lparr>total_price := total_price ex + sum_list (map line_price (accepted_entries d es))\<rparr>)"
    and d1: "d1 = fst (foldl (amend_item (o_id ex)) (d, 0) es)" "cart d1 = cart d"
    by blast
  have "sorted_wrt (<) (map oi_id (order_items d1))"
    unfolding d1(1) using assms by (simp add: id_order_def amend_loop_id_order)
  then show ?thesis
    using assms by (simp add: r id_order_def clear_user_cart_def d1(2) filter_increasing)
qed

lemma catalog_step_frame:
  "cart (catalog_step d x) = cart d" "order_items (catalog_step d x) = order_items d"
  by (cases x; simp add: create_model_def update_model_def delete_model_def create_product_def
      update_product_def update_stock_frame delete_product_def split: option.splits)+

lemma id_order_step:
  assumes "id_order d"
  shows "id_order (shop_step d x)"
proof (cases x)
  case (Add_to_cart u p q)
  from assms have "sorted_wrt (<) (map c_id (cart d))" by (simp add: id_order_def)
  from add_to_cart_step [OF this, of u p q]
  obtain d' row where r: "add_to_cart d u p q = Inr (d', row)" "sorted_wrt (<) (map c_id (cart d'))"
    by blast
  have "order_items d' = order_items d"
    using r(1) by (auto simp: add_to_cart_def merge_duplicate_cart_items_def Let_def
        split: sum.splits option.splits if_splits)
  with assms r show ?thesis by (simp add: Add_to_cart id_order_def)
next
  case (Get_user_cart u)
  from assms have inc: "sorted_wrt (<) (map c_id (cart d))" by (simp add: id_order_def)
  show ?thesis
    using assms merged_ids_increasing [OF cart_laws inc, of u]
    by (simp add: Get_user_cart id_order_def get_user_cart_def Let_def
        merge_duplicate_cart_items_merged [OF inc])
next
  case (Update_cart_item_quantity i q)
  have "map c_id (set_quantity_by_id c_id set_c_quantity i q (cart d)) = map c_id (cart d)"
    by (rule set_quantity_by_id_ids) (simp add: set_c_quantity_def)
  with assms show ?thesis
    by (simp add: Update_cart_item_quantity id_order_def update_cart_item_quantity_def
        filter_increasing)
next
  case (Remove_from_cart i)
  with assms show ?thesis by (simp add: id_order_def remove_from_cart_def filter_increasing)
next
  case (Clear_user_cart u)
  with assms show ?thesis by (simp add: id_order_def clear_user_cart_def filter_increasing)
next
  case (Create_order u es contact delivery fee now)
  with create_order_id_order [OF assms] show ?thesis by simp
next
  case (Merge_duplicate_order_items i)
  from assms have inc: "sorted_wrt (<) (map oi_id (order_items d))" by (simp add: id_order_def)
  show ?thesis
    using assms merged_ids_increasing [OF order_item_laws inc, of i]
    by (simp add: Merge_duplicate_order_items id_order_def
        merge_duplicate_order_items_merged [OF increasing_distinct [OF inc]])
next
  case (Update_order_status i st)
  with assms show ?thesis by (simp add: id_order_def update_order_status_def)
next
  case (Delete_order i)
  have loop: "cart (foldl (\<lambda>s item. update_stock s (oi_product_id item) (oi_quantity item)) s items)
      = cart s" for s items
    by (induction items arbitrary: s) (simp_all add: update_stock_frame)
  have "cart (fst (delete_order d i)) = cart d"
    by (simp add: delete_order_def Let_def loop split: option.splits)
  with assms show ?thesis
    by (simp add: Delete_order id_order_def delete_order_keeps_order_items)
next
  case (Catalog c)
  with assms show ?thesis by (simp add: id_order_def catalog_step_frame)
qed

lemma id_order_run:
  "id_order d \<Longrightarrow> id_order (foldl shop_step d ops)"
  by (induction ops arbitrary: d) (simp_all add: id_order_step)

lemma id_order_empty:
  "id_order \<lparr>models = ms, products = ps, cart = [], orders = os, order_items = []\<rparr>"
  by (simp add: id_order_def)

end
